theory Spec2Isabelle
  imports Complex_Main "HOL-Library.Sublist" "HOL-Library.Log_Nat"
begin

section \<open>Result model (core/types.ts, core/status.ts)\<close>

text \<open>
  The \<^verbatim>\<open>Status\<close> enum. Its string values are the lower-case names, so the
  \<^verbatim>\<open>switch (test.status)\<close> on \<^verbatim>\<open>'passed'\<close>, \<^verbatim>\<open>'failed'\<close>, ... is a case
  distinction on this datatype.
\<close>

datatype Status = PASSED | FAILED | BROKEN | SKIPPED | PENDING | RUNNING | UNKNOWN

text \<open>
  A JavaScript \<^verbatim>\<open>Date\<close> is modelled by the two observations the code makes of it:
  \<^verbatim>\<open>getTime()\<close> (milliseconds since the epoch) and \<^verbatim>\<open>toISOString()\<close>. Every
  \<^verbatim>\<open>new Date()\<close> and every \<^verbatim>\<open>uuidv4()\<close> of the source is an input of the model.
\<close>

record Date =
  getTime :: int
  toISOString :: string

text \<open>
  A thrown (or rejected-with) JavaScript value: an \<^verbatim>\<open>Error\<close> object with its message and
  optional stack, some other truthy value, or a falsy value.
\<close>

datatype thrown = ErrorObject string "string option" | TruthyValue string | FalsyValue

record Attachment =
  att_id :: string
  att_name :: string
  att_type :: string
  att_extension :: "string option"
  att_content :: string
  att_size :: nat
  att_timestamp :: string

text \<open>
  \<^verbatim>\<open>TestResult\<close>: the fields that the reporters read. The remaining fields of the
  interface (description, labels, links, parameters, steps, lineNumber, retryCount, isRetry,
  isFlaky, flakyReason) are never inspected by the code modelled here; they live in the
  extension slot of the record.
\<close>

record TestResult =
  test_id :: string
  test_name :: string
  fullName :: string
  status :: Status
  test_startTime :: "Date option"
  test_endTime :: "Date option"
  test_durationMs :: int
  errorMessage :: "string option"
  errorType :: "string option"
  stackTrace :: "string option"
  test_attachments :: "Attachment list"
  filePath :: "string option"

record TestRunResult =
  run_id :: string
  run_name :: string
  projectName :: string
  environment :: string
  startTime :: "Date option"
  endTime :: "Date option"
  durationMs :: int
  tests :: "TestResult list"
  total :: nat
  passed :: nat
  failed :: nat
  broken :: nat
  skipped :: nat
  passRate :: rat
  labels :: "string \<rightharpoonup> string"
  parameters :: "string \<rightharpoonup> string"
  ciBuildId :: "string option"
  ciBuildUrl :: "string option"
  branch :: "string option"
  commitHash :: "string option"

text \<open>\<^verbatim>\<open>Partial<TestRunResult>\<close>, restricted to the fields \<^verbatim>\<open>startRun\<close> reads.\<close>

record RunOptions =
  opt_id :: "string option"
  opt_name :: "string option"
  opt_projectName :: "string option"
  opt_environment :: "string option"
  opt_labels :: "(string \<rightharpoonup> string) option"
  opt_parameters :: "(string \<rightharpoonup> string) option"
  opt_ciBuildId :: "string option"
  opt_ciBuildUrl :: "string option"
  opt_branch :: "string option"
  opt_commitHash :: "string option"

section \<open>JavaScript numbers\<close>

text \<open>
  A finite JavaScript number is an IEEE 754 double, here the rational it stands for. An
  arithmetic operation yields the exact result rounded to the nearest double, ties to the
  even significand (53 bits). The exponent range is not bounded here: the operands below
  are counters and durations, whose quotients and products neither overflow nor reach the
  subnormal range. \<open>ilog2 x\<close> is the exponent of a positive \<open>x\<close>, the \<open>e\<close> with
  \<open>2\<^sup>e \<le> x < 2\<^sup>e\<^sup>+\<^sup>1\<close>.
\<close>

definition ilog2 :: "rat \<Rightarrow> int" where
  "ilog2 x =
     (let d = bitlen (fst (quotient_of x)) - bitlen (snd (quotient_of x))
      in if 2 powi d \<le> x then d else d - 1)"

definition round_even :: "rat \<Rightarrow> int" where
  "round_even m =
     (let f = \<lfloor>m\<rfloor>; d = m - of_int f
      in if d < 1 / 2 then f else if 1 / 2 < d then f + 1 else if even f then f else f + 1)"

definition round_double :: "rat \<Rightarrow> rat" where
  "round_double x =
     (if x = 0 then 0
      else (let e = ilog2 \<bar>x\<bar> - 52
            in sgn x * of_int (round_even (\<bar>x\<bar> / 2 powi e)) * 2 powi e))"

text \<open>The operators \<^verbatim>\<open>/\<close> and \<^verbatim>\<open>*\<close> on numbers.\<close>

definition js_div :: "rat \<Rightarrow> rat \<Rightarrow> rat" where
  "js_div a b = round_double (a / b)"

definition js_mul :: "rat \<Rightarrow> rat \<Rightarrow> rat" where
  "js_mul a b = round_double (a * b)"

section \<open>Configuration (core/config.ts)\<close>

record APIConfig =
  api_enabled :: bool
  api_url :: string
  api_key :: "string option"
  api_timeout :: int
  api_retryCount :: int
  batchSize :: int

record LocalConfig =
  local_enabled :: bool
  outputDir :: string
  formats :: "string list"
  cleanOnStart :: bool

record QAgenticConfig =
  cfg_projectName :: string
  cfg_environment :: string
  cfg_api :: APIConfig
  cfg_local :: LocalConfig
  consoleOutput :: bool
  labels_custom :: "string \<rightharpoonup> string"

section \<open>Reporter orchestrator (core/reporter.ts, class QAgenticReporter)\<close>

text \<open>
  The \<^verbatim>\<open>BaseReporter\<close> interface: three callbacks. A callback runs on the sink's own
  state and either completes or throws (a rejected promise under \<^verbatim>\<open>await\<close> is a throw);
  what it did to the sink's state before throwing stays done. Sinks get the run and the test
  as values: the built-in sinks only read them.
\<close>

record 'a BaseReporter =
  startRun_cb :: "TestRunResult \<Rightarrow> 'a \<Rightarrow> 'a \<times> thrown option"
  endRun_cb :: "TestRunResult \<Rightarrow> 'a \<Rightarrow> 'a \<times> thrown option"
  reportTest_cb :: "TestResult \<Rightarrow> 'a \<Rightarrow> 'a \<times> thrown option"
  sink :: 'a

datatype console_line = Log string | Warn string

datatype call = StartRunCall TestRunResult | ReportTestCall TestResult | EndRunCall TestRunResult

text \<open>
  The orchestrator's fields \<^verbatim>\<open>config\<close>, \<^verbatim>\<open>reporters\<close> and \<^verbatim>\<open>currentRun\<close>, its
  own console output (level and leading literal of each call), and a history variable
  \<open>calls\<close>: the callbacks invoked so far, each with the position of its sink in
  \<^verbatim>\<open>reporters\<close>. The run is written by the orchestrator's methods only: a caller that
  assigns to the object \<^verbatim>\<open>startRun\<close> returned (as the simplified Cypress setup does with
  its own statistics before \<^verbatim>\<open>endRun\<close>) is outside the model.
\<close>

record 'a QAgenticReporter =
  config :: QAgenticConfig
  reporters :: "'a BaseReporter list"
  currentRun :: "TestRunResult option"
  console :: "console_line list"
  calls :: "(nat \<times> call) list"

text \<open>
  \<^verbatim>\<open>for (const reporter of this.reporters) { await reporter.m(arg); }\<close>
  There is no \<^verbatim>\<open>try\<close> around the call: the first callback that throws ends the loop.
  The result is the sinks afterwards, the number of callbacks that were invoked, and the
  thrown value if there is one.
\<close>

fun for_each_reporter ::
  "('a BaseReporter \<Rightarrow> 'a \<Rightarrow> 'a \<times> thrown option) \<Rightarrow> 'a BaseReporter list
   \<Rightarrow> 'a BaseReporter list \<times> nat \<times> thrown option" where
  "for_each_reporter m [] = ([], 0, None)"
| "for_each_reporter m (r # rs) =
     (case m r (sink r) of
        (s', Some e) \<Rightarrow> (r\<lparr>sink := s'\<rparr> # rs, 1, Some e)
      | (s', None) \<Rightarrow>
          (case for_each_reporter m rs of
             (rs', k, res) \<Rightarrow> (r\<lparr>sink := s'\<rparr> # rs', Suc k, res)))"

text \<open>\<^verbatim>\<open>a || b\<close> on an optional string: undefined and the empty string are falsy.\<close>

definition or_string :: "string option \<Rightarrow> string \<Rightarrow> string" where
  "or_string v d = (case v of None \<Rightarrow> d | Some s \<Rightarrow> if s = [] then d else s)"

definition spread :: "('k \<rightharpoonup> 'v) option \<Rightarrow> ('k \<rightharpoonup> 'v)" where
  "spread m = (case m of None \<Rightarrow> Map.empty | Some f \<Rightarrow> f)"

text \<open>
  The three \<^verbatim>\<open>async\<close> methods. Each returns the orchestrator afterwards and either
  \<open>Inr\<close> the value its promise is fulfilled with or \<open>Inl\<close> the value it is rejected with.
  Assignments made before a sink throws stay made. \<^verbatim>\<open>startRun\<close> reads a fresh uuid and
  the clock twice (for the default name and for the start time), \<^verbatim>\<open>endRun\<close> reads the
  clock once.
\<close>

definition startRun ::
  "RunOptions \<Rightarrow> string \<Rightarrow> Date \<Rightarrow> Date \<Rightarrow> 'a QAgenticReporter
   \<Rightarrow> 'a QAgenticReporter \<times> (thrown + TestRunResult)" where
  "startRun options uuid nameNow startNow q =
     (let run = \<lparr>
            run_id = or_string (opt_id options) uuid,
            run_name = or_string (opt_name options)
              (''run_'' @ filter (\<lambda>c. c \<noteq> CHR '':'' \<and> c \<noteq> CHR ''.'') (toISOString nameNow)),
            projectName = or_string (opt_projectName options) (cfg_projectName (config q)),
            environment = or_string (opt_environment options) (cfg_environment (config q)),
            startTime = Some startNow,
            endTime = None,
            durationMs = 0,
            tests = [],
            total = 0,
            passed = 0,
            failed = 0,
            broken = 0,
            skipped = 0,
            passRate = 0,
            labels = labels_custom (config q) ++ spread (opt_labels options),
            parameters = spread (opt_parameters options),
            ciBuildId = opt_ciBuildId options,
            ciBuildUrl = opt_ciBuildUrl options,
            branch = opt_branch options,
            commitHash = opt_commitHash options \<rparr>
      in case for_each_reporter (\<lambda>r. startRun_cb r run) (reporters q) of
           (rs', k, res) \<Rightarrow>
             (q\<lparr>currentRun := Some run, reporters := rs',
                calls := calls q @ map (\<lambda>i. (i, StartRunCall run)) [0..<k]\<rparr>,
              case res of Some e \<Rightarrow> Inl e | None \<Rightarrow> Inr run))"

definition endRun ::
  "Date \<Rightarrow> 'a QAgenticReporter \<Rightarrow> 'a QAgenticReporter \<times> (thrown + TestRunResult option)" where
  "endRun now q =
     (case currentRun q of
        None \<Rightarrow> (q, Inr None)
      | Some cur \<Rightarrow>
          (let run = cur\<lparr>
                 endTime := Some now,
                 durationMs := getTime now - (case startTime cur of None \<Rightarrow> 0 | Some d \<Rightarrow> getTime d),
                 passRate := (if total cur > 0
                              then js_mul (js_div (of_nat (passed cur)) (of_nat (total cur))) 100 else 0)\<rparr>
           in case for_each_reporter (\<lambda>r. endRun_cb r run) (reporters q) of
                (rs', k, Some e) \<Rightarrow>
                  (q\<lparr>currentRun := Some run, reporters := rs',
                     calls := calls q @ map (\<lambda>i. (i, EndRunCall run)) [0..<k]\<rparr>, Inl e)
              | (rs', k, None) \<Rightarrow>
                  (q\<lparr>currentRun := None, reporters := rs',
                     calls := calls q @ map (\<lambda>i. (i, EndRunCall run)) [0..<k]\<rparr>,
                   Inr (Some run))))"

definition reportTest ::
  "TestResult \<Rightarrow> 'a QAgenticReporter \<Rightarrow> 'a QAgenticReporter \<times> (thrown + unit)" where
  "reportTest test q =
     (case currentRun q of
        None \<Rightarrow>
          (q\<lparr>console := console q @ [Warn ''[QAgenticReporter] No active run to report test'']\<rparr>,
           Inr ())
      | Some cur \<Rightarrow>
          (let r1 = cur\<lparr>tests := tests cur @ [test], total := total cur + 1\<rparr>;
               run = (case status test of
                        PASSED \<Rightarrow> r1\<lparr>passed := passed r1 + 1\<rparr>
                      | FAILED \<Rightarrow> r1\<lparr>failed := failed r1 + 1\<rparr>
                      | BROKEN \<Rightarrow> r1\<lparr>broken := broken r1 + 1\<rparr>
                      | SKIPPED \<Rightarrow> r1\<lparr>skipped := skipped r1 + 1\<rparr>
                      | _ \<Rightarrow> r1)
           in case for_each_reporter (\<lambda>r. reportTest_cb r test) (reporters q) of
                (rs', k, res) \<Rightarrow>
                  (q\<lparr>currentRun := Some run, reporters := rs',
                     console := console q @ [Log ''[QAgenticReporter] Test counts:''],
                     calls := calls q @ map (\<lambda>i. (i, ReportTestCall test)) [0..<k]\<rparr>,
                   case res of Some e \<Rightarrow> Inl e | None \<Rightarrow> Inr ())))"

definition getCurrentRun :: "'a QAgenticReporter \<Rightarrow> TestRunResult option" where
  "getCurrentRun q = currentRun q"

text \<open>A caller that reports a list of tests one after the other, whatever each call returns.\<close>

fun reportTests :: "TestResult list \<Rightarrow> 'a QAgenticReporter \<Rightarrow> 'a QAgenticReporter" where
  "reportTests [] q = q"
| "reportTests (t # ts) q = reportTests ts (fst (reportTest t q))"

definition count_status :: "Status \<Rightarrow> TestResult list \<Rightarrow> nat" where
  "count_status st ts = length (filter (\<lambda>t. status t = st) ts)"

text \<open>The equation \<^verbatim>\<open>total == passed+failed+broken+skipped\<close> as a predicate on a run.\<close>

definition counters_sum_ok :: "TestRunResult \<Rightarrow> bool" where
  "counters_sum_ok r = (total r = passed r + failed r + broken r + skipped r)"

text \<open>What a call threw, if it threw.\<close>

definition thrown_of :: "thrown + 'b \<Rightarrow> thrown option" where
  "thrown_of res = (case res of Inl e \<Rightarrow> Some e | Inr v \<Rightarrow> None)"

text \<open>
  The shape of one fan-out from state \<open>q\<close> to state \<open>q'\<close>, where \<open>res\<close> is what the
  orchestrator's method throws, if it throws: callback \<open>m\<close> was invoked on the first \<open>k\<close>
  sinks, in registration order, and on no other; each of them is left in the state its
  callback produced and the sinks after them are as they were; sink \<open>k - 1\<close>, the last one
  invoked, completed or threw exactly as the method does (\<open>res\<close>), and every sink before it
  completed without throwing; when the method does not throw, all sinks were invoked.
\<close>

definition stops_at_first_throw ::
  "('a BaseReporter \<Rightarrow> 'a \<Rightarrow> 'a \<times> thrown option) \<Rightarrow> call
   \<Rightarrow> 'a QAgenticReporter \<Rightarrow> 'a QAgenticReporter \<Rightarrow> thrown option \<Rightarrow> bool" where
  "stops_at_first_throw m c q q' res =
     (\<exists>k. k \<le> length (reporters q)
        \<and> length (reporters q') = length (reporters q)
        \<and> calls q' = calls q @ map (\<lambda>i. (i, c)) [0..<k]
        \<and> (\<forall>i. i < k \<longrightarrow>
              sink (reporters q' ! i) = fst (m (reporters q ! i) (sink (reporters q ! i)))
              \<and> snd (m (reporters q ! i) (sink (reporters q ! i)))
                  = (if Suc i = k then res else None))
        \<and> drop k (reporters q') = drop k (reporters q)
        \<and> (res = None \<longrightarrow> k = length (reporters q))
        \<and> (res \<noteq> None \<longrightarrow> 0 < k))"

section \<open>Step tracker (core/step.ts)\<close>

text \<open>
  \<^verbatim>\<open>Step\<close> objects are shared: the stack \<^verbatim>\<open>currentSteps\<close>, a parent's \<^verbatim>\<open>children\<close> array
  and the caller all hold references to the same object, and \<^verbatim>\<open>indexOf(this)\<close> compares
  references. So steps live in a store, and a reference is a position in it.
\<close>

type_synonym ref = nat

record Step =
  step_id :: string
  step_name :: string
  description :: "string option"
  step_status :: Status
  step_startTime :: "Date option"
  step_endTime :: "Date option"
  step_durationMs :: int
  error :: "string option"
  errorTrace :: "string option"
  attachments :: "Attachment list"
  children :: "ref list"
  step_parameters :: "string \<rightharpoonup> string"

text \<open>
  The module state: the store of the \<^verbatim>\<open>Step\<close> objects created so far, the module-level
  stack \<^verbatim>\<open>currentSteps\<close>, and a history variable \<open>end_calls\<close> listing every call of
  \<^verbatim>\<open>end\<close> with its receiver and argument.
\<close>

record step_world =
  heap :: "Step list"
  currentSteps :: "ref list"
  end_calls :: "(ref \<times> thrown option) list"

definition modify :: "ref \<Rightarrow> (Step \<Rightarrow> Step) \<Rightarrow> step_world \<Rightarrow> step_world" where
  "modify r f w = w\<lparr>heap := (heap w)[r := f (heap w ! r)]\<rparr>"

definition getCurrentSteps :: "step_world \<Rightarrow> ref list" where
  "getCurrentSteps w = currentSteps w"

text \<open>\<^verbatim>\<open>currentSteps[currentSteps.length - 1]\<close>: undefined on the empty stack.\<close>

definition getCurrentStep :: "step_world \<Rightarrow> ref option" where
  "getCurrentStep w =
     (if length (currentSteps w) = 0 then None
      else Some (currentSteps w ! (length (currentSteps w) - 1)))"

definition clearSteps :: "step_world \<Rightarrow> step_world" where
  "clearSteps w = w\<lparr>currentSteps := []\<rparr>"

text \<open>\<^verbatim>\<open>new Step(name, description, parameters)\<close>: allocates the object, returns its reference.\<close>

definition new_Step ::
  "string \<Rightarrow> string option \<Rightarrow> (string \<rightharpoonup> string) option \<Rightarrow> string \<Rightarrow> step_world
   \<Rightarrow> ref \<times> step_world" where
  "new_Step name descr params uuid w =
     (length (heap w),
      w\<lparr>heap := heap w @ [\<lparr>
           step_id = uuid, step_name = name, description = descr, step_status = PENDING,
           step_startTime = None, step_endTime = None, step_durationMs = 0,
           error = None, errorTrace = None, attachments = [], children = [],
           step_parameters = spread params\<rparr>]\<rparr>)"

definition Step_start :: "ref \<Rightarrow> Date \<Rightarrow> step_world \<Rightarrow> step_world" where
  "Step_start this now w =
     (let w1 = modify this (\<lambda>s. s\<lparr>step_startTime := Some now\<rparr>) w;
          w2 = modify this (\<lambda>s. s\<lparr>step_status := RUNNING\<rparr>) w1
      in w2\<lparr>currentSteps := currentSteps w2 @ [this]\<rparr>)"

text \<open>\<^verbatim>\<open>Array.prototype.indexOf\<close> (first position, or -1) and \<^verbatim>\<open>splice(index, 1)\<close>.\<close>

fun indexOf :: "'a list \<Rightarrow> 'a \<Rightarrow> int" where
  "indexOf [] x = - 1"
| "indexOf (y # ys) x =
     (if y = x then 0 else (let i = indexOf ys x in if i < 0 then - 1 else i + 1))"

definition splice1 :: "'a list \<Rightarrow> nat \<Rightarrow> 'a list" where
  "splice1 xs i = take i xs @ drop (Suc i) xs"

text \<open>Truthiness of a thrown value, and its \<^verbatim>\<open>message\<close> and \<^verbatim>\<open>stack\<close> properties.\<close>

fun truthy :: "thrown option \<Rightarrow> bool" where
  "truthy None = False"
| "truthy (Some FalsyValue) = False"
| "truthy (Some (TruthyValue v)) = True"
| "truthy (Some (ErrorObject m st)) = True"

fun message_of :: "thrown option \<Rightarrow> string option" where
  "message_of (Some (ErrorObject m st)) = Some m"
| "message_of e = None"

fun stack_of :: "thrown option \<Rightarrow> string option" where
  "stack_of (Some (ErrorObject m st)) = st"
| "stack_of e = None"

definition Step_end :: "ref \<Rightarrow> thrown option \<Rightarrow> Date \<Rightarrow> step_world \<Rightarrow> step_world" where
  "Step_end this err now w =
     (let w1 = modify this (\<lambda>s. s\<lparr>step_endTime := Some now\<rparr>) w;
          w2 = (case step_startTime (heap w1 ! this) of
                  Some st \<Rightarrow> modify this (\<lambda>s. s\<lparr>step_durationMs := getTime now - getTime st\<rparr>) w1
                | None \<Rightarrow> w1);
          index = indexOf (currentSteps w2) this;
          w3 = (if index > - 1
                then w2\<lparr>currentSteps := splice1 (currentSteps w2) (nat index)\<rparr> else w2);
          w4 = (case getCurrentStep w3 of
                  Some parent \<Rightarrow> modify parent (\<lambda>p. p\<lparr>children := children p @ [this]\<rparr>) w3
                | None \<Rightarrow> w3);
          w5 = (if truthy err
                then modify this (\<lambda>s. s\<lparr>step_status := FAILED, error := message_of err,
                                         errorTrace := stack_of err\<rparr>) w4
                else modify this (\<lambda>s. s\<lparr>step_status := PASSED\<rparr>) w4)
      in w5\<lparr>end_calls := end_calls w @ [(this, err)]\<rparr>)"

text \<open>
  What the callback of \<^verbatim>\<open>step(name, fn)\<close> does: it runs on the module state (it may start
  and end steps of its own) and returns a value, throws, or returns something that completes
  later, fulfilled or rejected. Of these \<^verbatim>\<open>step\<close> tells apart only what
  \<^verbatim>\<open>result instanceof Promise\<close> accepts, here \<open>ReturnsPromise\<close>. An awaitable of another
  kind (a promise of another library or of another realm, any object with a \<^verbatim>\<open>then\<close>
  method) is \<open>ReturnsThenable\<close>, with the way it will settle.
\<close>

datatype 'a settled = Fulfilled 'a | Rejected thrown

datatype 'a completion = Returns 'a | Throws thrown | ReturnsPromise | ReturnsThenable "'a settled"

text \<open>
  What the caller of \<^verbatim>\<open>step\<close> gets: a value, a thrown error, the promise
  \<^verbatim>\<open>result.then(...).catch(...)\<close>, still pending, whose handlers hold the step, or the
  callback's own awaitable, handed back as it is by \<^verbatim>\<open>return result\<close>, with no handler of
  \<^verbatim>\<open>step\<close> on it.
\<close>

datatype 'a step_outcome = Returned 'a | Thrown thrown | Pending ref | PassedOn "'a settled"

definition step ::
  "string \<Rightarrow> string option \<Rightarrow> (step_world \<Rightarrow> step_world \<times> 'a completion) \<Rightarrow> string
   \<Rightarrow> Date \<Rightarrow> Date \<Rightarrow> step_world \<Rightarrow> step_world \<times> 'a step_outcome" where
  "step name descr callback uuid startNow endNow w =
     (case new_Step name descr None uuid w of
        (s, w1) \<Rightarrow>
          (case callback (Step_start s startNow w1) of
             (w3, Returns result) \<Rightarrow> (Step_end s None endNow w3, Returned result)
           | (w3, ReturnsPromise) \<Rightarrow> (w3, Pending s)
           | (w3, ReturnsThenable result) \<Rightarrow> (Step_end s None endNow w3, PassedOn result)
           | (w3, Throws err) \<Rightarrow> (Step_end s (Some err) endNow w3, Thrown err)))"

text \<open>
  The handlers of the promise case, run when the callback's promise settles, on the module
  state of that moment: \<^verbatim>\<open>.then((value) => { s.end(); return value; })\<close> and
  \<^verbatim>\<open>.catch((error) => { s.end(error); throw error; })\<close>. The outcome is how the promise
  that \<^verbatim>\<open>step\<close> returned settles: \<open>Returned\<close> is fulfilled, \<open>Thrown\<close> is rejected.
\<close>

definition step_settled ::
  "ref \<Rightarrow> 'a settled \<Rightarrow> Date \<Rightarrow> step_world \<Rightarrow> step_world \<times> 'a step_outcome" where
  "step_settled s outcome endNow w =
     (case outcome of
        Fulfilled v \<Rightarrow> (Step_end s None endNow w, Returned v)
      | Rejected err \<Rightarrow> (Step_end s (Some err) endNow w, Thrown err))"

definition createStep :: "string \<Rightarrow> string option \<Rightarrow> string \<Rightarrow> step_world \<Rightarrow> ref \<times> step_world" where
  "createStep name descr uuid w = new_Step name descr None uuid w"

text \<open>Every reference on the stack points into the store.\<close>

definition stack_ok :: "step_world \<Rightarrow> bool" where
  "stack_ok w = list_all (\<lambda>r. r < length (heap w)) (currentSteps w)"

section \<open>Remote-API sink (core/reporter.ts, class APIReporter)\<close>

text \<open>
  An outbound HTTP request: the URL and what is sent. The body of a results request is built
  from the buffered tests, the body of the other two from the run; the bodies carry the tests
  and the run themselves, of which the source sends a selection of fields.
\<close>

datatype body = RunBody TestRunResult | ResultsBody "TestResult list" | PatchBody TestRunResult

datatype request = POST string body | PATCH string body

text \<open>
  The fields \<^verbatim>\<open>config\<close>, \<^verbatim>\<open>batch\<close> and \<^verbatim>\<open>currentRun\<close> of the class, its console
  output (level and leading literal of each call) and the requests it has issued, in order.
\<close>

record APIReporter =
  api_config :: QAgenticConfig
  batch :: "TestResult list"
  api_currentRun :: "TestRunResult option"
  api_console :: "console_line list"
  requests :: "request list"

definition say :: "console_line list \<Rightarrow> APIReporter \<Rightarrow> APIReporter" where
  "say ls s = s\<lparr>api_console := api_console s @ ls\<rparr>"

text \<open>
  \<^verbatim>\<open>await axios.post(...)\<close> / \<^verbatim>\<open>axios.patch(...)\<close> inside \<^verbatim>\<open>try\<close>: the request goes out
  and either resolves or rejects (network error, timeout, 4xx, 5xx). Which of the two
  happens is given by \<open>http\<close>, asked with the number of requests issued before this one.
  \<open>send\<close> returns the new state and whether the request resolved.
\<close>

definition send :: "(nat \<Rightarrow> bool) \<Rightarrow> request \<Rightarrow> APIReporter \<Rightarrow> APIReporter \<times> bool" where
  "send http rq s = (s\<lparr>requests := requests s @ [rq]\<rparr>, http (length (requests s)))"

text \<open>The four \<^verbatim>\<open>console.warn\<close> lines of each \<^verbatim>\<open>catch\<close> block.\<close>

definition warn_failure :: "string \<Rightarrow> APIReporter \<Rightarrow> APIReporter" where
  "warn_failure headline s =
     say [Warn headline, Warn ''  Error:'', Warn ''  Status:'', Warn ''  Data:''] s"

definition API_startRun :: "(nat \<Rightarrow> bool) \<Rightarrow> TestRunResult \<Rightarrow> APIReporter \<Rightarrow> APIReporter" where
  "API_startRun http run s =
     (if \<not> api_enabled (cfg_api (api_config s))
      then say [Log ''[APIReporter] API reporting disabled''] s
      else
        (let s1 = s\<lparr>api_currentRun := Some run, batch := []\<rparr>;
             s2 = say [Log ''[APIReporter] Starting test run:'', Log ''[APIReporter] POST to:''] s1
         in case send http (POST (api_url (cfg_api (api_config s)) @ ''/api/v1/runs'')
                              (RunBody run)) s2 of
              (s3, True) \<Rightarrow> say [Log ''[APIReporter] Test run started successfully:''] s3
            | (s3, False) \<Rightarrow> warn_failure ''[APIReporter] Failed to register run with API:'' s3))"

definition flushBatch :: "(nat \<Rightarrow> bool) \<Rightarrow> APIReporter \<Rightarrow> APIReporter" where
  "flushBatch http s =
     (case api_currentRun s of
        None \<Rightarrow> s
      | Some cur \<Rightarrow>
          if length (batch s) = 0 then s
          else
            (let s1 = say [Log ''[APIReporter] Flushing batch of''] s;
                 s3 = (case send http
                              (POST (api_url (cfg_api (api_config s)) @ ''/api/v1/runs/''
                                       @ run_id cur @ ''/results'')
                                 (ResultsBody (batch s))) s1 of
                         (s2, True) \<Rightarrow> say [Log ''[APIReporter] Batch flushed successfully:''] s2
                       | (s2, False) \<Rightarrow>
                           warn_failure ''[APIReporter] Failed to send test results to API:'' s2)
             in s3\<lparr>batch := []\<rparr>))"

definition API_reportTest :: "(nat \<Rightarrow> bool) \<Rightarrow> TestResult \<Rightarrow> APIReporter \<Rightarrow> APIReporter" where
  "API_reportTest http test s =
     (let s0 = say [Log ''[APIReporter] reportTest called for:''] s
      in if \<not> api_enabled (cfg_api (api_config s))
         then say [Log ''[APIReporter] API reporting disabled, skipping test report''] s0
         else
           (let s1 = say [Log ''[APIReporter] Adding test to batch:''] s0;
                s2 = s1\<lparr>batch := batch s1 @ [test]\<rparr>
            in if int (length (batch s2)) \<ge> batchSize (cfg_api (api_config s))
               then flushBatch http (say [Log ''[APIReporter] Batch size reached, flushing batch''] s2)
               else say [Log ''[APIReporter] Batch size:''] s2))"

text \<open>
  \<^verbatim>\<open>endRun\<close>. The 1500 ms pause after the flush has no counterpart here. Nothing in the
  \<^verbatim>\<open>try\<close> block before the \<^verbatim>\<open>PATCH\<close> can throw (\<^verbatim>\<open>flushBatch\<close> catches), so the
  \<^verbatim>\<open>PATCH\<close> is always issued.
\<close>

definition API_endRun :: "(nat \<Rightarrow> bool) \<Rightarrow> TestRunResult \<Rightarrow> APIReporter \<Rightarrow> APIReporter" where
  "API_endRun http run s =
     (if \<not> api_enabled (cfg_api (api_config s)) then s
      else
        (let s1 = say [Log ''[APIReporter] endRun called, batch size:''] s;
             s2 = (if length (batch s1) > 0
                   then say [Log ''[APIReporter] Batch flushed, waiting for processing...'']
                          (flushBatch http (say [Log ''[APIReporter] Flushing remaining''] s1))
                   else s1);
             s3 = say [Log ''[APIReporter] Finalizing run with test counts:'',
                       Log ''[APIReporter] PATCH to:'', Log ''[APIReporter] PATCH data:''] s2
         in case send http (PATCH (api_url (cfg_api (api_config s)) @ ''/api/v1/runs/''
                                     @ run_id run)
                              (PatchBody run)) s3 of
              (s4, True) \<Rightarrow> say [Log ''[APIReporter] Run finalized successfully:''] s4
            | (s4, False) \<Rightarrow> warn_failure ''[APIReporter] Failed to finalize run with API:'' s4))"

text \<open>The sink as the orchestrator sees it: none of the three methods throws.\<close>

definition APIReporter_sink :: "(nat \<Rightarrow> bool) \<Rightarrow> QAgenticConfig \<Rightarrow> APIReporter BaseReporter" where
  "APIReporter_sink http cfg = \<lparr>
     startRun_cb = (\<lambda>run s. (API_startRun http run s, None)),
     endRun_cb = (\<lambda>run s. (API_endRun http run s, None)),
     reportTest_cb = (\<lambda>t s. (API_reportTest http t s, None)),
     sink = \<lparr>api_config = cfg, batch = [], api_currentRun = None, api_console = [],
              requests = []\<rparr>\<rparr>"

text \<open>The URL of the results endpoint of a run.\<close>

definition results_url :: "APIReporter \<Rightarrow> TestRunResult \<Rightarrow> string" where
  "results_url s run = api_url (cfg_api (api_config s)) @ ''/api/v1/runs/'' @ run_id run @ ''/results''"

section \<open>JUnit XML sink (core/reporter.ts, class JUnitReporter)\<close>

definition dq :: char where
  "dq = CHR 0x22"

definition nl :: char where
  "nl = CHR 0x0A"

text \<open>\<^verbatim>\<open>str.replace(/c/g, r)\<close> for a single character \<open>c\<close>.\<close>

definition replace_all :: "char \<Rightarrow> string \<Rightarrow> string \<Rightarrow> string" where
  "replace_all c r str = concat (map (\<lambda>x. if x = c then r else [x]) str)"

definition escape :: "string \<Rightarrow> string" where
  "escape str =
     replace_all dq ''&quot;''
       (replace_all CHR ''>'' ''&gt;''
          (replace_all CHR ''<'' ''&lt;''
             (replace_all CHR ''&'' ''&amp;'' str)))"

text \<open>
  A counter in a template literal: the decimal digits of a natural number. (The counters
  are only ever incremented from 0, far below the numbers that JavaScript prints with an
  exponent.)
\<close>

definition digit_char :: "nat \<Rightarrow> char" where
  "digit_char d = ''0123456789'' ! d"

fun show_nat :: "nat \<Rightarrow> string" where
  "show_nat n = (if n < 10 then [digit_char n] else show_nat (n div 10) @ [digit_char (n mod 10)])"

declare show_nat.simps [simp del]

text \<open>
  \<^verbatim>\<open>Number.prototype.toString\<close> for a double \<open>x\<close> of at least \<open>10\<^sup>2\<^sup>1\<close>, which is a whole
  number: the fewest decimal digits \<open>s\<close> (\<open>k\<close> of them, at most 17) for which
  \<open>s \<times> 10\<^bsup>n - k\<^esup>\<close> is a number that rounds to \<open>x\<close>, the nearest to \<open>x\<close> where several fit,
  written with a point after the first digit and the exponent \<open>n - 1\<close>.
\<close>

definition digits_for :: "rat \<Rightarrow> nat \<Rightarrow> nat \<Rightarrow> (nat \<times> nat) list" where
  "digits_for x k n =
     map (\<lambda>s. (s, n))
       (filter (\<lambda>s. 10 ^ (k - 1) \<le> s \<and> s < 10 ^ k
                  \<and> round_double (of_nat s * 10 ^ (n - k)) = x)
          [nat \<lfloor>x / 10 ^ (n - k)\<rfloor>, nat \<lfloor>x / 10 ^ (n - k)\<rfloor> + 1])"

definition nearer :: "rat \<Rightarrow> nat \<Rightarrow> nat \<times> nat \<Rightarrow> nat \<times> nat \<Rightarrow> nat \<times> nat" where
  "nearer x k a b =
     (let da = \<bar>of_nat (fst a) * 10 ^ (snd a - k) - x\<bar>;
          db = \<bar>of_nat (fst b) * 10 ^ (snd b - k) - x\<bar>
      in if db < da \<or> (db = da \<and> even (fst b)) then b else a)"

fun shortest_digits :: "rat \<Rightarrow> nat \<Rightarrow> nat \<Rightarrow> nat \<Rightarrow> (nat \<times> nat \<times> nat) option" where
  "shortest_digits x n0 k 0 = None"
| "shortest_digits x n0 k (Suc fuel) =
     (case digits_for x k n0 @ digits_for x k (n0 + 1) of
        [] \<Rightarrow> shortest_digits x n0 (k + 1) fuel
      | c # cs \<Rightarrow> Some (k, foldl (nearer x k) c cs))"

definition exponent_form :: "rat \<Rightarrow> string" where
  "exponent_form x =
     (case shortest_digits x (length (show_nat (nat \<lfloor>x\<rfloor>))) 1 17 of
        None \<Rightarrow> show_nat (nat \<lfloor>x\<rfloor>)
      | Some (k, s, n) \<Rightarrow>
          (if k = 1 then show_nat s else take 1 (show_nat s) @ ''.'' @ drop 1 (show_nat s))
          @ ''e+'' @ show_nat (n - 1))"

text \<open>
  \<^verbatim>\<open>(ms / 1000).toFixed(3)\<close> for a number \<open>ms\<close> that holds a whole number of milliseconds.
  The quotient is a double \<open>x\<close>. From \<open>10\<^sup>2\<^sup>1\<close> on, \<^verbatim>\<open>toFixed\<close> is \<^verbatim>\<open>toString\<close>. Below, it
  takes the integer \<open>n\<close> for which \<open>n / 1000\<close> is nearest to \<open>x\<close>, the larger of two equally
  near, and writes it with a point before the last three digits. A negative number is
  written as its absolute value after a minus sign.
\<close>

definition toFixed3 :: "int \<Rightarrow> string" where
  "toFixed3 ms =
     (let x = js_div (of_int \<bar>ms\<bar>) 1000; n = nat \<lfloor>x * 1000 + 1 / 2\<rfloor>
      in (if ms < 0 then ''-'' else '''')
         @ (if 10 ^ 21 \<le> x then exponent_form x
            else show_nat (n div 1000) @ ''.''
              @ [digit_char (n mod 1000 div 100), digit_char (n mod 100 div 10),
                 digit_char (n mod 10)]))"

text \<open>\<^verbatim>\<open>name="value"\<close> as the template literals write it.\<close>

definition attr :: "string \<Rightarrow> string \<Rightarrow> string" where
  "attr nm v = nm @ ''='' @ [dq] @ v @ [dq]"

text \<open>The body of the loop over \<^verbatim>\<open>run.tests\<close>: one \<^verbatim>\<open>testcase\<close> element.\<close>

definition testcase_xml :: "TestResult \<Rightarrow> string" where
  "testcase_xml test =
     ''  <testcase '' @ attr ''name'' (escape (test_name test)) @ '' ''
       @ attr ''classname'' (escape (fullName test)) @ '' ''
       @ attr ''time'' (toFixed3 (test_durationMs test))
       @ (case status test of
            PASSED \<Rightarrow> ''/>'' @ [nl]
          | FAILED \<Rightarrow>
              ''>'' @ [nl]
              @ ''    <failure '' @ attr ''message'' (escape (or_string (errorMessage test) ''Test failed''))
              @ '' '' @ attr ''type'' (escape (or_string (errorType test) ''AssertionError'')) @ ''>''
              @ escape (or_string (stackTrace test) '''')
              @ ''</failure>'' @ [nl]
              @ ''  </testcase>'' @ [nl]
          | BROKEN \<Rightarrow>
              ''>'' @ [nl]
              @ ''    <error '' @ attr ''message'' (escape (or_string (errorMessage test) ''Test error''))
              @ '' '' @ attr ''type'' (escape (or_string (errorType test) ''Error'')) @ ''>''
              @ escape (or_string (stackTrace test) '''')
              @ ''</error>'' @ [nl]
              @ ''  </testcase>'' @ [nl]
          | SKIPPED \<Rightarrow>
              ''>'' @ [nl]
              @ ''    <skipped''
              @ (if or_string (errorMessage test) '''' = '''' then ''''
                 else '' '' @ attr ''message'' (escape (or_string (errorMessage test) '''')))
              @ ''/>'' @ [nl]
              @ ''  </testcase>'' @ [nl]
          | _ \<Rightarrow> ''/>'' @ [nl])"

definition generateXml :: "TestRunResult \<Rightarrow> string" where
  "generateXml run =
     ''<?xml '' @ attr ''version'' ''1.0'' @ '' '' @ attr ''encoding'' ''UTF-8'' @ ''?>'' @ [nl]
     @ ''<testsuite '' @ attr ''name'' (escape (projectName run)) @ '' ''
     @ attr ''tests'' (show_nat (total run)) @ '' ''
     @ attr ''failures'' (show_nat (failed run)) @ '' ''
     @ attr ''errors'' (show_nat (broken run)) @ '' ''
     @ attr ''skipped'' (show_nat (skipped run)) @ '' ''
     @ attr ''time'' (toFixed3 (durationMs run)) @ '' ''
     @ attr ''timestamp'' (case startTime run of None \<Rightarrow> '''' | Some d \<Rightarrow> toISOString d)
     @ ''>'' @ [nl]
     @ concat (map testcase_xml (tests run))
     @ ''</testsuite>'' @ [nl]"

text \<open>
  \<^verbatim>\<open>JUnitReporter.endRun\<close>. Nothing happens when local output or the \<^verbatim>\<open>junit\<close> format is
  off. Otherwise the XML goes to the file \<^verbatim>\<open>path.join(outputDir, 'junit.xml')\<close>; the two
  library functions are parameters, \<open>writeFileSync\<close> giving the error it throws, if any. The
  result is that error, or the file written with its text.
\<close>

definition JUnitReporter_endRun ::
  "(string \<Rightarrow> string \<Rightarrow> string) \<Rightarrow> (string \<Rightarrow> string \<Rightarrow> thrown option) \<Rightarrow> QAgenticConfig
   \<Rightarrow> TestRunResult \<Rightarrow> thrown + (string \<times> string) option" where
  "JUnitReporter_endRun path_join writeFileSync cfg run =
     (if \<not> local_enabled (cfg_local cfg) \<or> ''junit'' \<notin> set (formats (cfg_local cfg))
      then Inr None
      else
        (let xml = generateXml run;
             junitFile = path_join (outputDir (cfg_local cfg)) ''junit.xml''
         in case writeFileSync junitFile xml of
              Some err \<Rightarrow> Inl err
            | None \<Rightarrow> Inr (Some (junitFile, xml))))"

section \<open>The characters of an XML document\<close>

text \<open>
  XML 1.0, production [2]: \<^verbatim>\<open>Char ::= #x9 | #xA | #xD | [#x20-#xD7FF] | [#xE000-#xFFFD] |
  [#x10000-#x10FFFF]\<close>. A document holding any other character is not well-formed, and a
  conforming parser stops at it with a fatal error. The characters of this development have
  codes below 256, of which the legal ones are tab, line feed, carriage return and those
  from \<^verbatim>\<open>#x20\<close> on.
\<close>

definition xml_char :: "char \<Rightarrow> bool" where
  "xml_char c = (c = CHR 0x09 \<or> c = CHR 0x0A \<or> c = CHR 0x0D \<or> (32 :: nat) \<le> of_char c)"

definition xml_chars :: "string \<Rightarrow> bool" where
  "xml_chars xml = list_all xml_char xml"

section \<open>Examples\<close>

text \<open>Two clock readings, 1500 ms apart.\<close>

definition epoch :: Date where
  "epoch = \<lparr>getTime = 0, toISOString = ''1970-01-01T00:00:00.000Z''\<rparr>"

definition later :: Date where
  "later = \<lparr>getTime = 1500, toISOString = ''1970-01-01T00:00:01.500Z''\<rparr>"

text \<open>A configuration with every sink enabled and a batch size of 2.\<close>

definition example_config :: QAgenticConfig where
  "example_config = \<lparr>
     cfg_projectName = ''default'', cfg_environment = ''local'',
     cfg_api = \<lparr>api_enabled = True, api_url = ''http://localhost:8080'', api_key = None,
                api_timeout = 30000, api_retryCount = 3, batchSize = 2\<rparr>,
     cfg_local = \<lparr>local_enabled = True, outputDir = ''./qagentic-results'',
                  formats = [''json'', ''junit''], cleanOnStart = True\<rparr>,
     consoleOutput = True, labels_custom = Map.empty\<rparr>"

definition example_options :: RunOptions where
  "example_options = \<lparr>opt_id = None, opt_name = None, opt_projectName = Some ''P'',
     opt_environment = None, opt_labels = None, opt_parameters = None, opt_ciBuildId = None,
     opt_ciBuildUrl = None, opt_branch = None, opt_commitHash = None\<rparr>"

definition example_test :: "string \<Rightarrow> Status \<Rightarrow> TestResult" where
  "example_test n st = \<lparr>test_id = n, test_name = n, fullName = ''suite > '' @ n, status = st,
     test_startTime = None, test_endTime = None, test_durationMs = 12, errorMessage = None,
     errorType = None, stackTrace = None, test_attachments = [], filePath = None\<rparr>"

text \<open>
  Two sinks over the same state type: one records every call it receives and never throws,
  the other throws in \<^verbatim>\<open>reportTest\<close>.
\<close>

definition recording_sink :: "call list BaseReporter" where
  "recording_sink = \<lparr>
     startRun_cb = (\<lambda>run s. (s @ [StartRunCall run], None)),
     endRun_cb = (\<lambda>run s. (s @ [EndRunCall run], None)),
     reportTest_cb = (\<lambda>t s. (s @ [ReportTestCall t], None)),
     sink = []\<rparr>"

definition throwing_sink :: "call list BaseReporter" where
  "throwing_sink = \<lparr>
     startRun_cb = (\<lambda>run s. (s, None)),
     endRun_cb = (\<lambda>run s. (s, None)),
     reportTest_cb = (\<lambda>t s. (s, Some (ErrorObject ''sink failure'' None))),
     sink = []\<rparr>"

text \<open>A sink whose \<^verbatim>\<open>endRun\<close> throws, as a file sink does when it cannot write.\<close>

definition failing_end_sink :: "call list BaseReporter" where
  "failing_end_sink = \<lparr>
     startRun_cb = (\<lambda>run s. (s, None)),
     endRun_cb = (\<lambda>run s. (s, Some (ErrorObject ''EACCES: permission denied'' None))),
     reportTest_cb = (\<lambda>t s. (s, None)),
     sink = []\<rparr>"

text \<open>An idle orchestrator with the given sinks.\<close>

definition orchestrator :: "'a BaseReporter list \<Rightarrow> 'a QAgenticReporter" where
  "orchestrator rs = \<lparr>config = example_config, reporters = rs, currentRun = None,
     console = [], calls = []\<rparr>"

text \<open>The throwing sink registered before the recording sink, with a run started.\<close>

definition active_example :: "call list QAgenticReporter" where
  "active_example =
     fst (startRun example_options ''run-1'' epoch epoch
            (orchestrator [throwing_sink, recording_sink]))"

text \<open>The tests of the pass-rate scenario: three passed, one failed.\<close>

definition scenario_tests :: "TestResult list" where
  "scenario_tests = [example_test ''a'' PASSED, example_test ''b'' PASSED,
                     example_test ''c'' PASSED, example_test ''d'' FAILED]"


text \<open>The module state of \<^verbatim>\<open>step.ts\<close> when it is loaded.\<close>

definition no_steps :: step_world where
  "no_steps = \<lparr>heap = [], currentSteps = [], end_calls = []\<rparr>"

text \<open>Two steps, A then B, both started and neither ended: the stack is \<open>[A, B]\<close>.\<close>

definition two_open_steps :: step_world where
  "two_open_steps =
     (case new_Step ''A'' None None ''id-a'' no_steps of
        (a, w1) \<Rightarrow>
          (case new_Step ''B'' None None ''id-b'' (Step_start a epoch w1) of
             (b, w2) \<Rightarrow> Step_start b epoch w2))"

text \<open>Callbacks for the examples: one per way a callback can complete.\<close>

definition boom :: thrown where
  "boom = ErrorObject ''boom'' (Some ''Error: boom at test.ts:3'')"

definition returns_seven :: "step_world \<Rightarrow> step_world \<times> nat completion" where
  "returns_seven w = (w, Returns 7)"

definition throws_boom :: "step_world \<Rightarrow> step_world \<times> nat completion" where
  "throws_boom w = (w, Throws boom)"

definition returns_promise :: "step_world \<Rightarrow> step_world \<times> nat completion" where
  "returns_promise w = (w, ReturnsPromise)"

definition returns_rejecting_thenable :: "step_world \<Rightarrow> step_world \<times> nat completion" where
  "returns_rejecting_thenable w = (w, ReturnsThenable (Rejected boom))"

text \<open>
  An API sink with batch size 2 whose second request (the first results request) fails
  while all others succeed, and a run to register.
\<close>

definition fresh_api_sink :: APIReporter where
  "fresh_api_sink = sink (APIReporter_sink (\<lambda>n. n \<noteq> 1) example_config)"

definition example_run :: TestRunResult where
  "example_run = \<lparr>run_id = ''run-1'', run_name = ''nightly'', projectName = ''P'',
     environment = ''local'', startTime = Some epoch, endTime = None, durationMs = 0,
     tests = [], total = 0, passed = 0, failed = 0, broken = 0, skipped = 0, passRate = 0,
     labels = Map.empty, parameters = Map.empty, ciBuildId = None, ciBuildUrl = None,
     branch = None, commitHash = None\<rparr>"

text \<open>
  A failed test whose message is coloured with ANSI escape sequences, as the failure messages
  of Jest are (\<^verbatim>\<open>ESC [ 3 1 m\<close> switches to red, \<^verbatim>\<open>ESC [ 3 9 m\<close> back), the options of its
  run, and the run as \<^verbatim>\<open>endRun\<close> seals it.
\<close>

definition esc :: char where
  "esc = CHR 0x1B"

definition ansi_test :: TestResult where
  "ansi_test = (example_test ''adds'' FAILED)\<lparr>
     errorMessage := Some ([esc] @ ''[31mexpected 3, received 4'' @ [esc] @ ''[39m'')\<rparr>"

definition ansi_options :: RunOptions where
  "ansi_options = example_options\<lparr>opt_name := Some ''nightly''\<rparr>"

definition ansi_run :: TestRunResult where
  "ansi_run = example_run\<lparr>endTime := Some later, durationMs := 1500, tests := [ansi_test],
     total := 1, failed := 1\<rparr>"

section \<open>Unfolding the examples\<close>

lemmas ex_defs = epoch_def later_def example_config_def example_options_def example_test_def
  recording_sink_def throwing_sink_def orchestrator_def active_example_def
  startRun_def reportTest_def endRun_def Let_def or_string_def spread_def

lemmas step_defs = no_steps_def two_open_steps_def new_Step_def Step_start_def Step_end_def
  modify_def getCurrentStep_def splice1_def Let_def spread_def epoch_def later_def boom_def
  returns_seven_def throws_boom_def returns_promise_def returns_rejecting_thenable_def
  step_def step_settled_def stack_ok_def

lemmas api_defs = fresh_api_sink_def APIReporter_sink_def example_run_def example_config_def
  example_test_def epoch_def API_startRun_def API_reportTest_def API_endRun_def flushBatch_def
  send_def say_def warn_failure_def results_url_def Let_def

section \<open>The fan-out loop\<close>

lemma for_each_reporter_length:
  "for_each_reporter m rs = (rs', k, res) \<Longrightarrow> length rs' = length rs \<and> k \<le> length rs"
  by (induction rs arbitrary: rs' k res) (auto split: prod.splits option.splits)

lemma for_each_reporter_None:
  "for_each_reporter m rs = (rs', k, None) \<Longrightarrow> k = length rs"
  by (induction rs arbitrary: rs' k) (auto split: prod.splits option.splits)

lemma for_each_reporter_Some:
  "for_each_reporter m rs = (rs', k, Some e) \<Longrightarrow>
     0 < k \<and> k \<le> length rs \<and> snd (m (rs ! (k - 1)) (sink (rs ! (k - 1)))) = Some e
     \<and> drop k rs' = drop k rs"
proof (induction rs arbitrary: rs' k)
  case Nil
  then show ?case by simp
next
  case (Cons r rs)
  show ?case
  proof (cases "m r (sink r)")
    case (Pair s' thr)
    show ?thesis
    proof (cases thr)
      case None
      obtain rs2 k2 res2 where rec: "for_each_reporter m rs = (rs2, k2, res2)"
        by (cases "for_each_reporter m rs") auto
      with Cons.prems Pair None have eq: "rs' = r\<lparr>sink := s'\<rparr> # rs2" "k = Suc k2" "res2 = Some e"
        by auto
      from Cons.IH[of rs2 k2] rec eq(3) have ih: "0 < k2" "k2 \<le> length rs"
        "snd (m (rs ! (k2 - 1)) (sink (rs ! (k2 - 1)))) = Some e" "drop k2 rs2 = drop k2 rs"
        by auto
      from ih(1) have "(r # rs) ! (k - 1) = rs ! (k2 - 1)"
        by (simp add: eq(2) nth_Cons')
      with ih eq show ?thesis by simp
    next
      case (Some e')
      with Cons.prems Pair show ?thesis by auto
    qed
  qed
qed

lemma for_each_reporter_before:
  "for_each_reporter m rs = (rs', k, res) \<Longrightarrow> Suc i < k \<Longrightarrow>
     snd (m (rs ! i) (sink (rs ! i))) = None"
proof (induction rs arbitrary: rs' k res i)
  case Nil
  then show ?case by simp
next
  case (Cons r rs)
  show ?case
  proof (cases "m r (sink r)")
    case (Pair s' thr)
    show ?thesis
    proof (cases thr)
      case None
      obtain rs2 k2 res2 where rec: "for_each_reporter m rs = (rs2, k2, res2)"
        by (cases "for_each_reporter m rs") auto
      with Cons.prems Pair None have eq: "k = Suc k2" by auto
      show ?thesis
      proof (cases i)
        case 0
        with Pair None show ?thesis by simp
      next
        case (Suc j)
        with Cons.prems(2) eq have "Suc j < k2" by simp
        from Cons.IH[OF rec this] Suc show ?thesis by simp
      qed
    next
      case (Some e')
      with Cons.prems Pair show ?thesis by auto
    qed
  qed
qed

lemma for_each_reporter_never_throws:
  "\<forall>r\<in>set rs. \<forall>s. snd (m r s) = None \<Longrightarrow> snd (snd (for_each_reporter m rs)) = None"
proof (induction rs)
  case Nil
  then show ?case by simp
next
  case (Cons r rs)
  then have "snd (m r (sink r)) = None" by simp
  then obtain s' where "m r (sink r) = (s', None)" by (cases "m r (sink r)") auto
  with Cons show ?case by (auto split: prod.splits)
qed

lemma for_each_reporter_callbacks:
  "for_each_reporter m rs = (rs', k, res) \<Longrightarrow>
     map endRun_cb rs' = map endRun_cb rs \<and> map startRun_cb rs' = map startRun_cb rs
     \<and> map reportTest_cb rs' = map reportTest_cb rs"
  by (induction rs arbitrary: rs' k res) (auto split: prod.splits option.splits)

section \<open>Rounding to a double\<close>

lemma bitlen_lower: "0 < a \<Longrightarrow> (2::rat) powi (bitlen a - 1) \<le> of_int a"
proof -
  assume a: "0 < a"
  then have p: "0 \<le> bitlen a - 1"
    using bitlen_nonneg[of a] bitlen_eq_zero_iff[of a] by force
  from bitlen_bounds[OF a] have "(2::int) ^ nat (bitlen a - 1) \<le> a" by simp
  then have "(of_int ((2::int) ^ nat (bitlen a - 1)) :: rat) \<le> of_int a"
    by (simp only: of_int_le_iff)
  with p show ?thesis by (simp add: power_int_def)
qed
lemma bitlen_upper: "0 < a \<Longrightarrow> of_int a < (2::rat) powi (bitlen a)"
proof -
  assume a: "0 < a"
  have p: "0 \<le> bitlen a" by (rule bitlen_nonneg)
  from bitlen_bounds[OF a] have "a < (2::int) ^ nat (bitlen a)" by simp
  then have "(of_int a :: rat) < of_int ((2::int) ^ nat (bitlen a))"
    by (simp only: of_int_less_iff)
  with p show ?thesis by (simp add: power_int_def)
qed

lemma ilog2_bounds:
  assumes "0 < x"
  shows "2 powi (ilog2 x) \<le> x \<and> x < 2 powi (ilog2 x + 1)"
proof -
  obtain a b where q: "quotient_of x = (a, b)" by (cases "quotient_of x") auto
  then have b: "0 < b" and x: "x = of_int a / of_int b"
    using quotient_of_denom_pos quotient_of_div by auto
  with assms have a: "0 < a" by (simp add: zero_less_divide_iff)
  let ?la = "bitlen a" and ?lb = "bitlen b"
  let ?d = "?la - ?lb"
  have bpos: "(0::rat) < of_int b" using b by simp
  have apos: "(0::rat) < of_int a" using a by simp
  have lo: "(2::rat) powi (?d - 1) \<le> x"
  proof -
    have "(2::rat) powi (?d - 1) = 2 powi (?la - 1) / 2 powi ?lb"
      by (simp add: power_int_diff)
    also have "\<dots> \<le> of_int a / 2 powi ?lb"
      using bitlen_lower[OF a] by (simp add: divide_right_mono)
    also have "\<dots> \<le> of_int a / of_int b"
      using bitlen_upper[OF b] apos bpos by (simp add: frac_le)
    finally show ?thesis by (simp add: x)
  qed
  have hi: "x < (2::rat) powi (?d + 1)"
  proof -
    have "x = of_int a / of_int b" by (rule x)
    also have "\<dots> < 2 powi ?la / of_int b"
      using bitlen_upper[OF a] bpos by (simp add: divide_strict_right_mono)
    also have "\<dots> \<le> 2 powi ?la / 2 powi (?lb - 1)"
      using bitlen_lower[OF b] by (simp add: frac_le)
    also have "\<dots> = (2::rat) powi (?d + 1)"
      by (simp add: power_int_diff power_int_add algebra_simps) 
    finally show ?thesis .
  qed
  show ?thesis
  proof (cases "(2::rat) powi ?d \<le> x")
    case True
    with hi q show ?thesis by (simp add: ilog2_def Let_def)
  next
    case False
    with lo q show ?thesis by (simp add: ilog2_def Let_def)
  qed
qed

lemma round_even_error: "\<bar>of_int (round_even m) - m\<bar> \<le> 1 / 2"
proof -
  have "of_int \<lfloor>m\<rfloor> \<le> m" "m < of_int \<lfloor>m\<rfloor> + 1" by linarith+
  then show ?thesis
    by (auto simp add: round_even_def Let_def abs_le_iff)
qed

lemma round_double_error: "\<bar>round_double x - x\<bar> \<le> \<bar>x\<bar> / 2 ^ 53"
proof (cases "x = 0")
  case True
  then show ?thesis by (simp add: round_double_def)
next
  case False
  let ?y = "\<bar>x\<bar>"
  let ?e = "ilog2 ?y - 52"
  let ?m = "?y / 2 powi ?e"
  let ?r = "(of_int (round_even ?m) :: rat)"
  have y: "0 < ?y" using False by simp
  have p: "(0::rat) < 2 powi ?e" by simp
  have rd: "round_double x = sgn x * (?r * 2 powi ?e)"
    using False by (simp add: round_double_def Let_def mult.assoc)
  have xs: "x = sgn x * ?y" by (simp add: mult_sgn_abs)
  have "\<bar>round_double x - x\<bar> = \<bar>sgn x * (?r * 2 powi ?e - ?y)\<bar>"
    by (subst (2) xs) (simp only: rd right_diff_distrib)
  also have "\<dots> = \<bar>?r * 2 powi ?e - ?y\<bar>"
    using False by (simp add: abs_mult abs_sgn_eq)
  also have "?r * 2 powi ?e - ?y = (?r - ?m) * 2 powi ?e"
    by (simp add: left_diff_distrib)
  also have "\<bar>(?r - ?m) * 2 powi ?e\<bar> = \<bar>?r - ?m\<bar> * 2 powi ?e"
    by (simp add: abs_mult)
  also have "\<dots> \<le> (1 / 2) * 2 powi ?e"
    using round_even_error[of ?m] p by (intro mult_right_mono) simp_all
  also have "\<dots> = 2 powi (ilog2 ?y) / 2 ^ 53"
  proof -
    have "(2::rat) powi ?e = 2 powi (ilog2 ?y) / 2 powi 52"
      by (simp add: power_int_diff)
    then show ?thesis by simp
  qed
  also have "\<dots> \<le> ?y / 2 ^ 53"
    using ilog2_bounds[OF y] by (simp add: divide_right_mono)
  finally show ?thesis .
qed

lemma round_double_nonneg: "0 \<le> x \<Longrightarrow> 0 \<le> round_double x"
proof -
  assume x: "0 \<le> x"
  define u :: rat where "u = 1 / 2 ^ 53"
  have u: "0 \<le> u" "u \<le> 1" by (simp_all add: u_def)
  from round_double_error[of x] x have "\<bar>round_double x - x\<bar> \<le> x * u"
    by (simp add: u_def)
  then have "x - x * u \<le> round_double x" by linarith
  moreover have "x * u \<le> x" using x u by (simp add: mult_left_le)
  ultimately show ?thesis by linarith
qed

lemma double_percent_error:
  assumes "0 \<le> q"
  shows "\<bar>round_double (round_double q * 100) - q * 100\<bar> \<le> q * 100 / 2 ^ 51"
proof -
  define u :: rat where "u = 1 / 2 ^ 53"
  have u: "0 \<le> u" by (simp add: u_def)
  have u2: "u * (2 + u) \<le> 1 / 2 ^ 51" by (simp add: u_def)
  let ?d = "round_double q"
  have d0: "0 \<le> ?d" using assms by (rule round_double_nonneg)
  have e1: "\<bar>?d - q\<bar> \<le> q * u"
    using round_double_error[of q] assms by (simp add: u_def)
  then have d1: "?d \<le> q + q * u" by linarith
  have e2: "\<bar>round_double (?d * 100) - ?d * 100\<bar> \<le> ?d * 100 * u"
    using round_double_error[of "?d * 100"] d0 by (simp add: u_def)
  have "?d * 100 * u \<le> (q + q * u) * 100 * u"
    using d1 u by (intro mult_right_mono) simp_all
  with e1 e2 have "\<bar>round_double (?d * 100) - q * 100\<bar>
      \<le> (q + q * u) * 100 * u + q * u * 100"
    by linarith
  also have "\<dots> = q * 100 * (u * (2 + u))"
    by (simp add: algebra_simps)
  also have "\<dots> \<le> q * 100 * (1 / 2 ^ 51)"
    using assms u2 by (intro mult_left_mono) simp_all
  finally show ?thesis by simp
qed

section \<open>The orchestrator: counters and pass rate\<close>

lemma startRun_currentRun:
  "\<exists>run. currentRun (fst (startRun options uuid d1 d2 q)) = Some run \<and> tests run = []
     \<and> total run = 0 \<and> passed run = 0 \<and> failed run = 0 \<and> broken run = 0 \<and> skipped run = 0
     \<and> endTime run = None \<and> passRate run = 0 \<and> startTime run = Some d2"
  by (simp add: startRun_def Let_def split: prod.splits)

lemma reportTest_active:
  "currentRun q = Some cur \<Longrightarrow>
   \<exists>run. currentRun (fst (reportTest t q)) = Some run \<and> tests run = tests cur @ [t]
     \<and> total run = Suc (total cur)
     \<and> passed run = passed cur + (if status t = PASSED then 1 else 0)
     \<and> failed run = failed cur + (if status t = FAILED then 1 else 0)
     \<and> broken run = broken cur + (if status t = BROKEN then 1 else 0)
     \<and> skipped run = skipped cur + (if status t = SKIPPED then 1 else 0)"
  by (cases "status t") (simp_all add: reportTest_def Let_def split: prod.splits)

lemma count_status_Cons:
  "count_status st (t # ts) = (if status t = st then 1 else 0) + count_status st ts"
  by (simp add: count_status_def)

lemma count_status_Nil: "count_status st [] = 0"
  by (simp add: count_status_def)

lemma reportTests_active:
  "currentRun q = Some cur \<Longrightarrow>
   \<exists>run. currentRun (reportTests ts q) = Some run \<and> tests run = tests cur @ ts
     \<and> total run = total cur + length ts
     \<and> passed run = passed cur + count_status PASSED ts
     \<and> failed run = failed cur + count_status FAILED ts
     \<and> broken run = broken cur + count_status BROKEN ts
     \<and> skipped run = skipped cur + count_status SKIPPED ts"
proof (induction ts arbitrary: q cur)
  case Nil
  then show ?case by (simp add: count_status_Nil)
next
  case (Cons t ts)
  from reportTest_active[OF Cons.prems, of t] obtain r1 where
    r1: "currentRun (fst (reportTest t q)) = Some r1" "tests r1 = tests cur @ [t]"
        "total r1 = Suc (total cur)"
        "passed r1 = passed cur + (if status t = PASSED then 1 else 0)"
        "failed r1 = failed cur + (if status t = FAILED then 1 else 0)"
        "broken r1 = broken cur + (if status t = BROKEN then 1 else 0)"
        "skipped r1 = skipped cur + (if status t = SKIPPED then 1 else 0)"
    by blast
  from Cons.IH[OF r1(1)] obtain run where
    run: "currentRun (reportTests ts (fst (reportTest t q))) = Some run"
        "tests run = tests r1 @ ts" "total run = total r1 + length ts"
        "passed run = passed r1 + count_status PASSED ts"
        "failed run = failed r1 + count_status FAILED ts"
        "broken run = broken r1 + count_status BROKEN ts"
        "skipped run = skipped r1 + count_status SKIPPED ts"
    by blast
  show ?case
    using r1 run by (simp add: count_status_Cons)
qed

lemma length_by_status:
  "length ts = count_status PASSED ts + count_status FAILED ts + count_status BROKEN ts
     + count_status SKIPPED ts + count_status PENDING ts + count_status RUNNING ts
     + count_status UNKNOWN ts"
proof (induction ts)
  case Nil
  show ?case by (simp add: count_status_Nil)
next
  case (Cons t ts)
  then show ?case by (cases "status t") (simp_all add: count_status_Cons)
qed

lemma count_status_none:
  "\<forall>t\<in>set ts. status t \<noteq> st \<Longrightarrow> count_status st ts = 0"
  by (simp add: count_status_def)

text \<open>
  C2 (as amended). On a run created by \<^verbatim>\<open>startRun\<close>, after any sequence of
  \<^verbatim>\<open>reportTest\<close> calls (whatever the sinks do), the run holds exactly the reported tests,
  \<open>total\<close> is their number and each of the four buckets is the number of reported tests
  with that status. \<open>total\<close> is the sum of the four buckets plus the number of tests whose
  status is pending, running or unknown: the \<^verbatim>\<open>switch\<close> has no case for those. So the
  sum equation holds when every reported test has one of the four bucketed statuses.
\<close>

theorem reportTest_counters:
  "\<exists>run. currentRun (reportTests ts (fst (startRun options uuid d1 d2 q))) = Some run
     \<and> tests run = ts \<and> total run = length ts
     \<and> passed run = count_status PASSED ts \<and> failed run = count_status FAILED ts
     \<and> broken run = count_status BROKEN ts \<and> skipped run = count_status SKIPPED ts
     \<and> total run = passed run + failed run + broken run + skipped run
          + count_status PENDING ts + count_status RUNNING ts + count_status UNKNOWN ts
     \<and> ((\<forall>t\<in>set ts. status t \<in> {PASSED, FAILED, BROKEN, SKIPPED})
          \<longrightarrow> total run = passed run + failed run + broken run + skipped run)"
proof -
  obtain r0 where r0: "currentRun (fst (startRun options uuid d1 d2 q)) = Some r0"
    "tests r0 = []" "total r0 = 0" "passed r0 = 0" "failed r0 = 0" "broken r0 = 0"
    "skipped r0 = 0"
    using startRun_currentRun[of options uuid d1 d2 q] by blast
  from reportTests_active[OF r0(1), of ts] obtain run where
    run: "currentRun (reportTests ts (fst (startRun options uuid d1 d2 q))) = Some run"
      "tests run = tests r0 @ ts" "total run = total r0 + length ts"
      "passed run = passed r0 + count_status PASSED ts"
      "failed run = failed r0 + count_status FAILED ts"
      "broken run = broken r0 + count_status BROKEN ts"
      "skipped run = skipped r0 + count_status SKIPPED ts"
    by blast
  have sum: "total run = passed run + failed run + broken run + skipped run
          + count_status PENDING ts + count_status RUNNING ts + count_status UNKNOWN ts"
    using run r0 length_by_status[of ts] by simp
  have four: "(\<forall>t\<in>set ts. status t \<in> {PASSED, FAILED, BROKEN, SKIPPED})
          \<longrightarrow> total run = passed run + failed run + broken run + skipped run"
  proof
    assume a: "\<forall>t\<in>set ts. status t \<in> {PASSED, FAILED, BROKEN, SKIPPED}"
    have "count_status PENDING ts = 0" "count_status RUNNING ts = 0" "count_status UNKNOWN ts = 0"
      using a by (auto intro!: count_status_none)
    with sum show "total run = passed run + failed run + broken run + skipped run" by simp
  qed
  show ?thesis
    using run r0 sum four by auto
qed

theorem reportTest_counters_witness:
  "status (example_test ''a'' PASSED) \<in> {PASSED, FAILED, BROKEN, SKIPPED}
   \<and> status (example_test ''b'' FAILED) \<in> {PASSED, FAILED, BROKEN, SKIPPED}
   \<and> (\<exists>run. currentRun (reportTests [example_test ''a'' PASSED, example_test ''b'' FAILED]
          (fst (startRun example_options ''run-1'' epoch epoch
             (orchestrator [recording_sink])))) = Some run
        \<and> total run = 2 \<and> passed run = 1 \<and> failed run = 1 \<and> broken run = 0 \<and> skipped run = 0
        \<and> total run = passed run + failed run + broken run + skipped run)"
  using reportTest_counters[of "[example_test ''a'' PASSED, example_test ''b'' FAILED]"
      example_options "''run-1''" epoch epoch "orchestrator [recording_sink]"]
  by (auto simp add: count_status_def example_test_def)

text \<open>
  C2 as stated fails: one reported test of status \<^verbatim>\<open>unknown\<close> (what the Jest adapter's
  \<^verbatim>\<open>mapStatus\<close> yields by default) gives \<open>total = 1\<close> with all four buckets 0.
\<close>

theorem reportTest_counters_counterexample:
  "map_option counters_sum_ok
     (currentRun (fst (reportTest (example_test ''a'' UNKNOWN)
        (fst (startRun example_options ''run-1'' epoch epoch
           (orchestrator [recording_sink])))))) = Some False
   \<and> map_option total
     (currentRun (fst (reportTest (example_test ''a'' UNKNOWN)
        (fst (startRun example_options ''run-1'' epoch epoch
           (orchestrator [recording_sink])))))) = Some 1"
  by (simp add: ex_defs counters_sum_ok_def)


lemma endRun_never_throws:
  assumes "currentRun q = Some cur"
    and "\<forall>r\<in>set (reporters q). \<forall>run s. snd (endRun_cb r run s) = None"
  shows "\<exists>q' run. endRun now q = (q', Inr (Some run)) \<and> tests run = tests cur
           \<and> currentRun q' = None"
proof -
  let ?run = "cur\<lparr>endTime := Some now,
      durationMs := getTime now - (case startTime cur of None \<Rightarrow> 0 | Some d \<Rightarrow> getTime d),
      passRate := (if total cur > 0
                   then js_mul (js_div (of_nat (passed cur)) (of_nat (total cur))) 100 else 0)\<rparr>"
  have "\<forall>r\<in>set (reporters q). \<forall>s. snd ((\<lambda>r. endRun_cb r ?run) r s) = None"
    using assms(2) by simp
  from for_each_reporter_never_throws[OF this]
  obtain rs' k where "for_each_reporter (\<lambda>r. endRun_cb r ?run) (reporters q) = (rs', k, None)"
    by (cases "for_each_reporter (\<lambda>r. endRun_cb r ?run) (reporters q)") auto
  with assms(1) show ?thesis
    by (simp add: endRun_def Let_def)
qed

lemma reportTest_keeps_callbacks:
  "map endRun_cb (reporters (fst (reportTest t q))) = map endRun_cb (reporters q)"
proof (cases "currentRun q")
  case None
  then show ?thesis by (simp add: reportTest_def)
next
  case (Some cur)
  obtain rs' k res where f:
    "for_each_reporter (\<lambda>r. reportTest_cb r t) (reporters q) = (rs', k, res)"
    by (cases "for_each_reporter (\<lambda>r. reportTest_cb r t) (reporters q)") auto
  from for_each_reporter_callbacks[OF f] have "map endRun_cb rs' = map endRun_cb (reporters q)"
    by simp
  with Some f show ?thesis by (simp add: reportTest_def Let_def)
qed

lemma startRun_unfold:
  "\<exists>run. startRun options uuid d1 d2 q =
       (case for_each_reporter (\<lambda>r. startRun_cb r run) (reporters q) of
          (rs', k, res) \<Rightarrow>
            (q\<lparr>currentRun := Some run, reporters := rs',
               calls := calls q @ map (\<lambda>i. (i, StartRunCall run)) [0..<k]\<rparr>,
             case res of Some e \<Rightarrow> Inl e | None \<Rightarrow> Inr run))
     \<and> tests run = [] \<and> total run = 0 \<and> endTime run = None \<and> startTime run = Some d2
     \<and> run_id run = or_string (opt_id options) uuid"
  unfolding startRun_def Let_def
  apply (rule exI)
  apply (rule conjI)
   apply (rule refl)
  apply simp
  done

lemma startRun_keeps_callbacks:
  "map endRun_cb (reporters (fst (startRun options uuid d1 d2 q))) = map endRun_cb (reporters q)"
proof -
  obtain run where u: "startRun options uuid d1 d2 q =
       (case for_each_reporter (\<lambda>r. startRun_cb r run) (reporters q) of
          (rs', k, res) \<Rightarrow>
            (q\<lparr>currentRun := Some run, reporters := rs',
               calls := calls q @ map (\<lambda>i. (i, StartRunCall run)) [0..<k]\<rparr>,
             case res of Some e \<Rightarrow> Inl e | None \<Rightarrow> Inr run))"
    using startRun_unfold[of options uuid d1 d2 q] by blast
  obtain rs' k res where f:
    "for_each_reporter (\<lambda>r. startRun_cb r run) (reporters q) = (rs', k, res)"
    by (cases "for_each_reporter (\<lambda>r. startRun_cb r run) (reporters q)") auto
  from for_each_reporter_callbacks[OF f] have "map endRun_cb rs' = map endRun_cb (reporters q)"
    by simp
  with u f show ?thesis by simp
qed

lemma reportTests_keeps_callbacks:
  "map endRun_cb (reporters (reportTests ts q)) = map endRun_cb (reporters q)"
  by (induction ts arbitrary: q) (simp_all add: reportTest_keeps_callbacks)

lemma never_throws_transfer:
  assumes "map endRun_cb rs' = map endRun_cb rs"
    and "\<forall>r\<in>set rs. \<forall>run s. snd (endRun_cb r run s) = None"
  shows "\<forall>r\<in>set rs'. \<forall>run s. snd (endRun_cb r run s) = None"
proof -
  from assms(1) have "set (map endRun_cb rs') = set (map endRun_cb rs)" by simp
  then have "endRun_cb ` set rs' = endRun_cb ` set rs" by simp
  with assms(2) show ?thesis by (metis (no_types, lifting) image_iff)
qed

lemma endRun_active:
  assumes "currentRun q = Some cur"
  shows "\<exists>run. run = cur\<lparr>endTime := Some now,
              durationMs := getTime now - (case startTime cur of None \<Rightarrow> 0 | Some d \<Rightarrow> getTime d),
              passRate := (if total cur > 0
                           then js_mul (js_div (of_nat (passed cur)) (of_nat (total cur))) 100
                           else 0)\<rparr>
     \<and> (snd (endRun now q) = Inr (Some run) \<and> currentRun (fst (endRun now q)) = None
        \<or> (\<exists>e. snd (endRun now q) = Inl e) \<and> currentRun (fst (endRun now q)) = Some run)"
  using assms
  by (auto simp add: endRun_def Let_def split: prod.splits option.splits)

lemma passRate_value:
  "\<bar>(if total cur > 0 then js_mul (js_div (of_nat (passed cur)) (of_nat (total cur))) 100 else 0)
      - of_nat (passed cur) / of_nat (total cur) * 100\<bar>
   \<le> of_nat (passed cur) / of_nat (total cur) * 100 / 2 ^ 51"
proof (cases "total cur > 0")
  case True
  have "(0::rat) \<le> of_nat (passed cur) / of_nat (total cur)" by simp
  from double_percent_error[OF this] True show ?thesis
    by (simp add: js_mul_def js_div_def)
next
  case False
  then show ?thesis by simp
qed

lemma scenario_passRate: "js_mul (js_div 3 4) 100 = 75"
  unfolding js_mul_def js_div_def by code_simp

text \<open>
  C6 (as amended). \<^verbatim>\<open>endRun\<close> on an active run seals it: \<open>passRate\<close> becomes 0 when
  \<open>total = 0\<close> and \<^verbatim>\<open>(passed / total) * 100\<close> otherwise, evaluated as JavaScript does, in
  doubles, which is within \<open>2\<^sup>-\<^sup>5\<^sup>1\<close> of the exact quotient, relatively; the counters and
  the tests are unchanged. The sealed run is what \<^verbatim>\<open>endRun\<close> returns, unless a sink's
  \<^verbatim>\<open>endRun\<close> callback throws: then \<^verbatim>\<open>endRun\<close> throws and the sealed run stays in the
  active slot. It is returned whenever no sink's \<^verbatim>\<open>endRun\<close> callback throws. In the
  scenario \<^verbatim>\<open>startRun\<close>, three \<^verbatim>\<open>reportTest\<close> of status passed, one of status failed,
  \<^verbatim>\<open>endRun\<close>, the sealed run has \<open>total = 4\<close>, \<open>passed = 3\<close>, \<open>failed = 1\<close> and
  \<open>passRate = 75\<close>, exactly.
\<close>

theorem endRun_passRate:
  "(currentRun q = Some cur \<longrightarrow>
      (\<exists>run.
         (snd (endRun now q) = Inr (Some run) \<and> currentRun (fst (endRun now q)) = None
          \<or> (\<exists>e. snd (endRun now q) = Inl e) \<and> currentRun (fst (endRun now q)) = Some run)
         \<and> passRate run =
             (if total cur = 0 then 0
              else js_mul (js_div (of_nat (passed cur)) (of_nat (total cur))) 100)
         \<and> \<bar>passRate run - of_nat (passed cur) / of_nat (total cur) * 100\<bar>
             \<le> of_nat (passed cur) / of_nat (total cur) * 100 / 2 ^ 51
         \<and> total run = total cur \<and> passed run = passed cur \<and> failed run = failed cur
         \<and> broken run = broken cur \<and> skipped run = skipped cur \<and> tests run = tests cur
         \<and> endTime run = Some now))
   \<and> (currentRun q = Some cur
        \<and> (\<forall>r\<in>set (reporters q). \<forall>run s. snd (endRun_cb r run s) = None) \<longrightarrow>
      (\<exists>q' run. endRun now q = (q', Inr (Some run))))
   \<and> (status t1 = PASSED \<and> status t2 = PASSED \<and> status t3 = PASSED \<and> status t4 = FAILED
        \<and> q4 = reportTests [t1, t2, t3, t4] (fst (startRun options uuid d1 d2 q0)) \<longrightarrow>
      (\<exists>run'.
         (snd (endRun now' q4) = Inr (Some run')
          \<or> (\<exists>e. snd (endRun now' q4) = Inl e) \<and> currentRun (fst (endRun now' q4)) = Some run')
         \<and> total run' = 4 \<and> passed run' = 3 \<and> failed run' = 1 \<and> broken run' = 0
         \<and> skipped run' = 0 \<and> passRate run' = 75)
      \<and> ((\<forall>r\<in>set (reporters q0). \<forall>run s. snd (endRun_cb r run s) = None) \<longrightarrow>
           (\<exists>q5 run'.
              endRun now' q4 = (q5, Inr (Some run'))
              \<and> total run' = 4 \<and> passed run' = 3 \<and> failed run' = 1 \<and> broken run' = 0
              \<and> skipped run' = 0 \<and> passRate run' = 75)))"
proof (intro conjI)
  show "currentRun q = Some cur \<longrightarrow>
      (\<exists>run.
         (snd (endRun now q) = Inr (Some run) \<and> currentRun (fst (endRun now q)) = None
          \<or> (\<exists>e. snd (endRun now q) = Inl e) \<and> currentRun (fst (endRun now q)) = Some run)
         \<and> passRate run =
             (if total cur = 0 then 0
              else js_mul (js_div (of_nat (passed cur)) (of_nat (total cur))) 100)
         \<and> \<bar>passRate run - of_nat (passed cur) / of_nat (total cur) * 100\<bar>
             \<le> of_nat (passed cur) / of_nat (total cur) * 100 / 2 ^ 51
         \<and> total run = total cur \<and> passed run = passed cur \<and> failed run = failed cur
         \<and> broken run = broken cur \<and> skipped run = skipped cur \<and> tests run = tests cur
         \<and> endTime run = Some now)"
  proof
    assume a: "currentRun q = Some cur"
    from endRun_active[OF a, of now] obtain run where
      run: "run = cur\<lparr>endTime := Some now,
              durationMs := getTime now - (case startTime cur of None \<Rightarrow> 0 | Some d \<Rightarrow> getTime d),
              passRate := (if total cur > 0
                           then js_mul (js_div (of_nat (passed cur)) (of_nat (total cur))) 100
                           else 0)\<rparr>"
      and res: "snd (endRun now q) = Inr (Some run) \<and> currentRun (fst (endRun now q)) = None
        \<or> (\<exists>e. snd (endRun now q) = Inl e) \<and> currentRun (fst (endRun now q)) = Some run"
      by blast
    have pr: "passRate run =
             (if total cur = 0 then 0
              else js_mul (js_div (of_nat (passed cur)) (of_nat (total cur))) 100)"
      by (simp add: run)
    have bound: "\<bar>passRate run - of_nat (passed cur) / of_nat (total cur) * 100\<bar>
             \<le> of_nat (passed cur) / of_nat (total cur) * 100 / 2 ^ 51"
      using passRate_value[of cur] by (simp add: run)
    have rest: "total run = total cur \<and> passed run = passed cur \<and> failed run = failed cur
         \<and> broken run = broken cur \<and> skipped run = skipped cur \<and> tests run = tests cur
         \<and> endTime run = Some now"
      by (simp add: run)
    from res pr bound rest show "\<exists>run.
         (snd (endRun now q) = Inr (Some run) \<and> currentRun (fst (endRun now q)) = None
          \<or> (\<exists>e. snd (endRun now q) = Inl e) \<and> currentRun (fst (endRun now q)) = Some run)
         \<and> passRate run =
             (if total cur = 0 then 0
              else js_mul (js_div (of_nat (passed cur)) (of_nat (total cur))) 100)
         \<and> \<bar>passRate run - of_nat (passed cur) / of_nat (total cur) * 100\<bar>
             \<le> of_nat (passed cur) / of_nat (total cur) * 100 / 2 ^ 51
         \<and> total run = total cur \<and> passed run = passed cur \<and> failed run = failed cur
         \<and> broken run = broken cur \<and> skipped run = skipped cur \<and> tests run = tests cur
         \<and> endTime run = Some now"
      by blast
  qed
next
  show "currentRun q = Some cur
        \<and> (\<forall>r\<in>set (reporters q). \<forall>run s. snd (endRun_cb r run s) = None) \<longrightarrow>
      (\<exists>q' run. endRun now q = (q', Inr (Some run)))"
    using endRun_never_throws[of q cur now] by blast
next
  show "status t1 = PASSED \<and> status t2 = PASSED \<and> status t3 = PASSED \<and> status t4 = FAILED
        \<and> q4 = reportTests [t1, t2, t3, t4] (fst (startRun options uuid d1 d2 q0)) \<longrightarrow>
      (\<exists>run'.
         (snd (endRun now' q4) = Inr (Some run')
          \<or> (\<exists>e. snd (endRun now' q4) = Inl e) \<and> currentRun (fst (endRun now' q4)) = Some run')
         \<and> total run' = 4 \<and> passed run' = 3 \<and> failed run' = 1 \<and> broken run' = 0
         \<and> skipped run' = 0 \<and> passRate run' = 75)
      \<and> ((\<forall>r\<in>set (reporters q0). \<forall>run s. snd (endRun_cb r run s) = None) \<longrightarrow>
           (\<exists>q5 run'.
              endRun now' q4 = (q5, Inr (Some run'))
              \<and> total run' = 4 \<and> passed run' = 3 \<and> failed run' = 1 \<and> broken run' = 0
              \<and> skipped run' = 0 \<and> passRate run' = 75))"
  proof
    assume b: "status t1 = PASSED \<and> status t2 = PASSED \<and> status t3 = PASSED \<and> status t4 = FAILED
        \<and> q4 = reportTests [t1, t2, t3, t4] (fst (startRun options uuid d1 d2 q0))"
    then have q4: "q4 = reportTests [t1, t2, t3, t4] (fst (startRun options uuid d1 d2 q0))"
      by simp
    obtain r0 where r0: "currentRun (fst (startRun options uuid d1 d2 q0)) = Some r0"
      "total r0 = 0" "passed r0 = 0" "failed r0 = 0" "broken r0 = 0" "skipped r0 = 0"
      using startRun_currentRun[of options uuid d1 d2 q0] by blast
    from reportTests_active[OF r0(1), of "[t1, t2, t3, t4]"] obtain cur where
      cur: "currentRun q4 = Some cur" "total cur = total r0 + length [t1, t2, t3, t4]"
        "passed cur = passed r0 + count_status PASSED [t1, t2, t3, t4]"
        "failed cur = failed r0 + count_status FAILED [t1, t2, t3, t4]"
        "broken cur = broken r0 + count_status BROKEN [t1, t2, t3, t4]"
        "skipped cur = skipped r0 + count_status SKIPPED [t1, t2, t3, t4]"
      unfolding q4 by blast
    from b have st: "status t1 = PASSED" "status t2 = PASSED" "status t3 = PASSED"
      "status t4 = FAILED" by simp_all
    have counts: "total cur = 4" "passed cur = 3" "failed cur = 1" "broken cur = 0"
      "skipped cur = 0"
      using cur r0 st by (simp_all add: count_status_def)
    from endRun_active[OF cur(1), of now'] obtain run' where
      run': "run' = cur\<lparr>endTime := Some now',
              durationMs := getTime now' - (case startTime cur of None \<Rightarrow> 0 | Some d \<Rightarrow> getTime d),
              passRate := (if total cur > 0
                           then js_mul (js_div (of_nat (passed cur)) (of_nat (total cur))) 100
                           else 0)\<rparr>"
      and res: "snd (endRun now' q4) = Inr (Some run') \<and> currentRun (fst (endRun now' q4)) = None
        \<or> (\<exists>e. snd (endRun now' q4) = Inl e) \<and> currentRun (fst (endRun now' q4)) = Some run'"
      by blast
    have vals: "total run' = 4 \<and> passed run' = 3 \<and> failed run' = 1 \<and> broken run' = 0
         \<and> skipped run' = 0 \<and> passRate run' = 75"
      by (simp add: run' counts scenario_passRate)
    have first: "\<exists>run'.
         (snd (endRun now' q4) = Inr (Some run')
          \<or> (\<exists>e. snd (endRun now' q4) = Inl e) \<and> currentRun (fst (endRun now' q4)) = Some run')
         \<and> total run' = 4 \<and> passed run' = 3 \<and> failed run' = 1 \<and> broken run' = 0
         \<and> skipped run' = 0 \<and> passRate run' = 75"
      using res vals by blast
    have second: "(\<forall>r\<in>set (reporters q0). \<forall>run s. snd (endRun_cb r run s) = None) \<longrightarrow>
           (\<exists>q5 run'.
              endRun now' q4 = (q5, Inr (Some run'))
              \<and> total run' = 4 \<and> passed run' = 3 \<and> failed run' = 1 \<and> broken run' = 0
              \<and> skipped run' = 0 \<and> passRate run' = 75)"
    proof
      assume quiet0: "\<forall>r\<in>set (reporters q0). \<forall>run s. snd (endRun_cb r run s) = None"
      have "map endRun_cb (reporters q4) = map endRun_cb (reporters q0)"
        unfolding q4 by (simp only: reportTests_keeps_callbacks startRun_keeps_callbacks)
      from never_throws_transfer[OF this quiet0]
      have quiet: "\<forall>r\<in>set (reporters q4). \<forall>run s. snd (endRun_cb r run s) = None" .
      from endRun_never_throws[OF cur(1) quiet, of now'] obtain q5 r where
        e: "endRun now' q4 = (q5, Inr (Some r))" by blast
      with res have "r = run'" by auto
      with e vals show "\<exists>q5 run'.
              endRun now' q4 = (q5, Inr (Some run'))
              \<and> total run' = 4 \<and> passed run' = 3 \<and> failed run' = 1 \<and> broken run' = 0
              \<and> skipped run' = 0 \<and> passRate run' = 75"
        by blast
    qed
    from first second show "(\<exists>run'.
         (snd (endRun now' q4) = Inr (Some run')
          \<or> (\<exists>e. snd (endRun now' q4) = Inl e) \<and> currentRun (fst (endRun now' q4)) = Some run')
         \<and> total run' = 4 \<and> passed run' = 3 \<and> failed run' = 1 \<and> broken run' = 0
         \<and> skipped run' = 0 \<and> passRate run' = 75)
      \<and> ((\<forall>r\<in>set (reporters q0). \<forall>run s. snd (endRun_cb r run s) = None) \<longrightarrow>
           (\<exists>q5 run'.
              endRun now' q4 = (q5, Inr (Some run'))
              \<and> total run' = 4 \<and> passed run' = 3 \<and> failed run' = 1 \<and> broken run' = 0
              \<and> skipped run' = 0 \<and> passRate run' = 75))"
      by blast
  qed
qed

theorem endRun_passRate_witness:
  "\<exists>q5 run'.
     endRun later (reportTests scenario_tests
          (fst (startRun example_options ''run-1'' epoch epoch (orchestrator [recording_sink]))))
         = (q5, Inr (Some run'))
     \<and> total run' = 4 \<and> passed run' = 3 \<and> failed run' = 1 \<and> passRate run' = 75"
proof -
  have st: "status (example_test ''a'' PASSED) = PASSED" "status (example_test ''b'' PASSED) = PASSED"
    "status (example_test ''c'' PASSED) = PASSED" "status (example_test ''d'' FAILED) = FAILED"
    by (simp_all add: example_test_def)
  have quiet: "\<forall>r\<in>set (reporters (orchestrator [recording_sink])).
      \<forall>run s. snd (endRun_cb r run s) = None"
    by (simp add: orchestrator_def recording_sink_def)
  note T = endRun_passRate[where ?t1.0 = "example_test ''a'' PASSED"
      and ?t2.0 = "example_test ''b'' PASSED" and ?t3.0 = "example_test ''c'' PASSED"
      and ?t4.0 = "example_test ''d'' FAILED" and now' = later and options = example_options
      and uuid = "''run-1''" and ?d1.0 = epoch and ?d2.0 = epoch
      and ?q0.0 = "orchestrator [recording_sink]"
      and ?q4.0 = "reportTests scenario_tests
          (fst (startRun example_options ''run-1'' epoch epoch (orchestrator [recording_sink])))"]
  from T[THEN conjunct2, THEN conjunct2] st quiet
  show ?thesis
    unfolding scenario_tests_def by blast
qed

text \<open>
  C6 as stated fails: in the scenario with a sink whose \<^verbatim>\<open>endRun\<close> throws (a file that
  cannot be written), \<^verbatim>\<open>endRun\<close> returns no run but throws that error; the run with its
  four tests stays active.
\<close>

theorem endRun_passRate_counterexample:
  "snd (endRun later (reportTests scenario_tests
          (fst (startRun example_options ''run-1'' epoch epoch (orchestrator [failing_end_sink])))))
     = Inl (ErrorObject ''EACCES: permission denied'' None)
   \<and> map_option total (currentRun (fst (endRun later (reportTests scenario_tests
          (fst (startRun example_options ''run-1'' epoch epoch
             (orchestrator [failing_end_sink]))))))) = Some 4"
  by (simp add: ex_defs scenario_tests_def failing_end_sink_def)

text \<open>
  Two pass rates as the code computes them: 1 of 3 is the double nearest to
  33.33333333333333, not \<open>100 / 3\<close>, and 7 of 25 is 28.000000000000004, not 28.
\<close>

lemma passRate_one_third: "js_mul (js_div 1 3) 100 = 2345624805922133 / 2 ^ 46"
  unfolding js_mul_def js_div_def by code_simp

lemma passRate_seven_of_25: "js_mul (js_div 7 25) 100 = 28 + 1 / 2 ^ 48"
  unfolding js_mul_def js_div_def by code_simp

section \<open>The orchestrator: sinks that throw, idle calls, restarting\<close>

lemma for_each_reporter_invoked:
  "for_each_reporter m rs = (rs', k, res) \<Longrightarrow> i < k \<Longrightarrow>
     sink (rs' ! i) = fst (m (rs ! i) (sink (rs ! i)))
     \<and> snd (m (rs ! i) (sink (rs ! i))) = (if Suc i = k then res else None)"
proof (induction rs arbitrary: rs' k res i)
  case Nil
  then show ?case by simp
next
  case (Cons r rs)
  show ?case
  proof (cases "m r (sink r)")
    case (Pair s' thr)
    show ?thesis
    proof (cases thr)
      case None
      obtain rs2 k2 res2 where rec: "for_each_reporter m rs = (rs2, k2, res2)"
        by (cases "for_each_reporter m rs") auto
      with Cons.prems Pair None have eq: "rs' = r\<lparr>sink := s'\<rparr> # rs2" "k = Suc k2" "res = res2"
        by auto
      show ?thesis
      proof (cases i)
        case 0
        have "k2 = 0 \<Longrightarrow> res2 = None"
          using rec for_each_reporter_Some[of m rs rs2 k2] by (cases res2) auto
        with 0 Pair None eq show ?thesis by auto
      next
        case (Suc j)
        with Cons.prems(2) eq have "j < k2" by simp
        from Cons.IH[OF rec this] Suc eq show ?thesis by simp
      qed
    next
      case (Some e')
      with Cons.prems Pair show ?thesis by auto
    qed
  qed
qed

lemma for_each_reporter_rest:
  "for_each_reporter m rs = (rs', k, res) \<Longrightarrow> drop k rs' = drop k rs"
proof (cases res)
  case None
  assume f: "for_each_reporter m rs = (rs', k, res)"
  with None for_each_reporter_None[of m rs rs' k] for_each_reporter_length[OF f]
  show ?thesis by simp
next
  case (Some e)
  assume "for_each_reporter m rs = (rs', k, res)"
  with Some for_each_reporter_Some[of m rs rs' k e] show ?thesis by simp
qed

lemma stops_at_first_throwI:
  assumes "for_each_reporter m (reporters q) = (rs', k, res)"
    and "reporters q' = rs'" and "calls q' = calls q @ map (\<lambda>i. (i, c)) [0..<k]"
  shows "stops_at_first_throw m c q q' res"
proof -
  have len: "k \<le> length (reporters q)" "length (reporters q') = length (reporters q)"
    using for_each_reporter_length[OF assms(1)] assms(2) by simp_all
  have inv: "\<forall>i. i < k \<longrightarrow>
              sink (reporters q' ! i) = fst (m (reporters q ! i) (sink (reporters q ! i)))
              \<and> snd (m (reporters q ! i) (sink (reporters q ! i)))
                  = (if Suc i = k then res else None)"
    using for_each_reporter_invoked[OF assms(1)] assms(2) by blast
  have rest: "drop k (reporters q') = drop k (reporters q)"
    using for_each_reporter_rest[OF assms(1)] assms(2) by simp
  have all: "res = None \<longrightarrow> k = length (reporters q)"
    using for_each_reporter_None[of m "reporters q" rs' k] assms(1) by simp
  have pos: "res \<noteq> None \<longrightarrow> 0 < k"
    using for_each_reporter_Some[of m "reporters q" rs' k] assms(1) by auto
  show ?thesis
    unfolding stops_at_first_throw_def using len inv rest all pos assms(3) by blast
qed

lemma startRun_fanout:
  "startRun options uuid d1 d2 q = (q', res) \<Longrightarrow>
     \<exists>run. currentRun q' = Some run \<and> tests run = []
       \<and> stops_at_first_throw (\<lambda>r. startRun_cb r run) (StartRunCall run) q q' (thrown_of res)
       \<and> (res = Inr run \<or> (\<exists>e. res = Inl e))"
  unfolding startRun_def Let_def
  by (auto split: prod.splits option.splits simp add: thrown_of_def
      intro!: stops_at_first_throwI)

lemma reportTest_fanout:
  "currentRun q = Some cur \<Longrightarrow> reportTest t q = (q', res) \<Longrightarrow>
     stops_at_first_throw (\<lambda>r. reportTest_cb r t) (ReportTestCall t) q q' (thrown_of res)"
  unfolding reportTest_def Let_def
  by (auto split: prod.splits option.splits simp add: thrown_of_def
      intro!: stops_at_first_throwI)

lemma endRun_fanout:
  "currentRun q = Some cur \<Longrightarrow> endRun now q = (q', res) \<Longrightarrow>
     \<exists>run. stops_at_first_throw (\<lambda>r. endRun_cb r run) (EndRunCall run) q q' (thrown_of res)
       \<and> tests run = tests cur
       \<and> (res = Inr (Some run) \<and> currentRun q' = None
          \<or> (\<exists>e. res = Inl e) \<and> currentRun q' = Some run)"
  unfolding endRun_def Let_def
  by (auto split: prod.splits option.splits simp add: thrown_of_def
      intro!: stops_at_first_throwI)

lemma endRun_after_reportTest:
  assumes "currentRun q = Some cur"
    and "\<forall>r\<in>set (reporters q). \<forall>run s. snd (endRun_cb r run s) = None"
  shows "\<exists>q4 run. endRun now (fst (reportTest t q)) = (q4, Inr (Some run))
           \<and> tests run = tests cur @ [t] \<and> currentRun q4 = None"
proof -
  obtain r1 where r1: "currentRun (fst (reportTest t q)) = Some r1" "tests r1 = tests cur @ [t]"
    using reportTest_active[OF assms(1), of t] by blast
  have "set (map endRun_cb (reporters (fst (reportTest t q)))) = set (map endRun_cb (reporters q))"
    by (simp only: reportTest_keeps_callbacks)
  then have "endRun_cb ` set (reporters (fst (reportTest t q))) = endRun_cb ` set (reporters q)"
    by simp
  with assms(2) have "\<forall>r\<in>set (reporters (fst (reportTest t q))). \<forall>run s. snd (endRun_cb r run s) = None"
    by (metis (no_types, lifting) image_iff)
  from endRun_never_throws[OF r1(1) this, of now] r1(2) show ?thesis by auto
qed

text \<open>
  C1 (as amended). The orchestrator has no \<^verbatim>\<open>try\<close>/\<^verbatim>\<open>catch\<close> around its sink calls. For
  each of \<^verbatim>\<open>startRun\<close>, \<^verbatim>\<open>reportTest\<close> and \<^verbatim>\<open>endRun\<close> it invokes the callback on the
  sinks in registration order; when a callback throws, the sinks registered after it are not
  invoked for that event and the thrown value is what the orchestrator's method throws. A
  throw inside \<^verbatim>\<open>reportTest\<close> happens after the test was appended to the run, the run stays
  active, and a following \<^verbatim>\<open>endRun\<close> seals and returns it when no \<^verbatim>\<open>endRun\<close> callback
  throws.
\<close>

theorem fanout_stops_at_first_throw:
  "(startRun options uuid d1 d2 q0 = (q1, res1) \<longrightarrow>
      (\<exists>run. currentRun q1 = Some run
         \<and> stops_at_first_throw (\<lambda>r. startRun_cb r run) (StartRunCall run) q0 q1 (thrown_of res1)))
   \<and> (currentRun q = Some cur \<and> reportTest t q = (q2, res2) \<longrightarrow>
        stops_at_first_throw (\<lambda>r. reportTest_cb r t) (ReportTestCall t) q q2 (thrown_of res2)
        \<and> (\<exists>run. currentRun q2 = Some run \<and> tests run = tests cur @ [t]))
   \<and> (currentRun q = Some cur \<and> endRun now q = (q3, res3) \<longrightarrow>
        (\<exists>run. stops_at_first_throw (\<lambda>r. endRun_cb r run) (EndRunCall run) q q3 (thrown_of res3)
           \<and> tests run = tests cur
           \<and> (res3 = Inr (Some run) \<and> currentRun q3 = None
              \<or> (\<exists>e. res3 = Inl e) \<and> currentRun q3 = Some run)))
   \<and> (currentRun q = Some cur
        \<and> (\<forall>r\<in>set (reporters q). \<forall>run s. snd (endRun_cb r run s) = None) \<longrightarrow>
        (\<exists>q4 run. endRun now (fst (reportTest t q)) = (q4, Inr (Some run))
           \<and> tests run = tests cur @ [t] \<and> currentRun q4 = None))"
proof (intro conjI impI)
  assume "startRun options uuid d1 d2 q0 = (q1, res1)"
  from startRun_fanout[OF this]
  show "\<exists>run. currentRun q1 = Some run
         \<and> stops_at_first_throw (\<lambda>r. startRun_cb r run) (StartRunCall run) q0 q1 (thrown_of res1)"
    by blast
next
  assume a: "currentRun q = Some cur \<and> reportTest t q = (q2, res2)"
  then show "stops_at_first_throw (\<lambda>r. reportTest_cb r t) (ReportTestCall t) q q2 (thrown_of res2)"
    using reportTest_fanout by blast
  from a reportTest_active[of q cur t]
  show "\<exists>run. currentRun q2 = Some run \<and> tests run = tests cur @ [t]"
    by auto
next
  assume "currentRun q = Some cur \<and> endRun now q = (q3, res3)"
  then show "\<exists>run. stops_at_first_throw (\<lambda>r. endRun_cb r run) (EndRunCall run) q q3 (thrown_of res3)
           \<and> tests run = tests cur
           \<and> (res3 = Inr (Some run) \<and> currentRun q3 = None
              \<or> (\<exists>e. res3 = Inl e) \<and> currentRun q3 = Some run)"
    using endRun_fanout by blast
next
  assume "currentRun q = Some cur
        \<and> (\<forall>r\<in>set (reporters q). \<forall>run s. snd (endRun_cb r run s) = None)"
  then show "\<exists>q4 run. endRun now (fst (reportTest t q)) = (q4, Inr (Some run))
           \<and> tests run = tests cur @ [t] \<and> currentRun q4 = None"
    using endRun_after_reportTest by blast
qed

theorem fanout_stops_at_first_throw_witness:
  "\<exists>q2 e q4 run.
     reportTest (example_test ''a'' PASSED) active_example = (q2, Inl e)
     \<and> stops_at_first_throw (\<lambda>r. reportTest_cb r (example_test ''a'' PASSED))
          (ReportTestCall (example_test ''a'' PASSED)) active_example q2 (Some e)
     \<and> calls q2 = calls active_example @ [(0, ReportTestCall (example_test ''a'' PASSED))]
     \<and> endRun later q2 = (q4, Inr (Some run))
     \<and> tests run = [example_test ''a'' PASSED] \<and> currentRun q4 = None"
proof -
  let ?t = "example_test ''a'' PASSED"
  obtain cur where cur: "currentRun active_example = Some cur" "tests cur = []"
    by (simp add: ex_defs)
  obtain q2 where q2: "reportTest ?t active_example = (q2, Inl (ErrorObject ''sink failure'' None))"
    by (simp add: ex_defs)
  have calls: "calls q2 = calls active_example @ [(0, ReportTestCall ?t)]"
    using q2 by (auto simp add: ex_defs)
  have quiet: "\<forall>r\<in>set (reporters active_example). \<forall>run s. snd (endRun_cb r run s) = None"
    by (simp add: ex_defs)
  note T = fanout_stops_at_first_throw[of example_options "''run-1''" epoch epoch
      "orchestrator [throwing_sink, recording_sink]" active_example
      "snd (startRun example_options ''run-1'' epoch epoch
         (orchestrator [throwing_sink, recording_sink]))"
      active_example cur ?t q2 "Inl (ErrorObject ''sink failure'' None)" later q2 "Inr None"]
  from T cur(1) q2
  have stop: "stops_at_first_throw (\<lambda>r. reportTest_cb r ?t) (ReportTestCall ?t) active_example q2
      (Some (ErrorObject ''sink failure'' None))"
    by (simp add: thrown_of_def)
  from T cur(1) quiet q2 obtain q4 run where
    "endRun later q2 = (q4, Inr (Some run))" "tests run = tests cur @ [?t]" "currentRun q4 = None"
    by fastforce
  with cur(2) q2 stop calls show ?thesis by auto
qed

text \<open>
  C1 as stated fails: with a sink that throws in \<^verbatim>\<open>reportTest\<close> registered before a
  recording sink, \<^verbatim>\<open>reportTest\<close> throws that error, only sink 0 was invoked, and the
  recording sink never received the test.
\<close>

theorem fanout_counterexample:
  "snd (reportTest (example_test ''a'' PASSED) active_example)
     = Inl (ErrorObject ''sink failure'' None)
   \<and> calls (fst (reportTest (example_test ''a'' PASSED) active_example))
     = calls active_example @ [(0, ReportTestCall (example_test ''a'' PASSED))]
   \<and> map sink (reporters (fst (reportTest (example_test ''a'' PASSED) active_example)))
     = map sink (reporters active_example)
   \<and> length (reporters active_example) = 2"
  by (simp add: ex_defs)

text \<open>
  C8 (as amended). With no active run, \<^verbatim>\<open>reportTest\<close> logs one warning and returns
  \<^verbatim>\<open>undefined\<close>, and \<^verbatim>\<open>endRun\<close> returns \<^verbatim>\<open>null\<close> and logs nothing; neither throws,
  invokes a sink, or changes any other part of the orchestrator.
\<close>

theorem idle_calls_are_noops:
  "currentRun q = None \<Longrightarrow>
     reportTest t q
       = (q\<lparr>console := console q @ [Warn ''[QAgenticReporter] No active run to report test'']\<rparr>,
          Inr ())
     \<and> calls (fst (reportTest t q)) = calls q
     \<and> reporters (fst (reportTest t q)) = reporters q
     \<and> currentRun (fst (reportTest t q)) = None
     \<and> endRun now q = (q, Inr None)"
  by (simp add: reportTest_def endRun_def)

theorem idle_calls_are_noops_witness:
  "currentRun (orchestrator [recording_sink]) = None
   \<and> snd (reportTest (example_test ''a'' PASSED) (orchestrator [recording_sink])) = Inr ()
   \<and> console (fst (reportTest (example_test ''a'' PASSED) (orchestrator [recording_sink])))
       = [Warn ''[QAgenticReporter] No active run to report test'']
   \<and> calls (fst (reportTest (example_test ''a'' PASSED) (orchestrator [recording_sink]))) = []
   \<and> endRun later (orchestrator [recording_sink]) = (orchestrator [recording_sink], Inr None)"
proof -
  have idle: "currentRun (orchestrator [recording_sink]) = None"
    by (simp add: orchestrator_def)
  from idle_calls_are_noops[OF idle, of "example_test ''a'' PASSED" later] idle
  show ?thesis by (simp add: orchestrator_def)
qed

text \<open>
  C8 as stated fails for \<^verbatim>\<open>endRun\<close>: called with no active run it leaves the console as
  it was, so no warning is logged.
\<close>

theorem idle_endRun_counterexample:
  "currentRun (orchestrator [recording_sink]) = None
   \<and> console (fst (endRun later (orchestrator [recording_sink])))
       = console (orchestrator [recording_sink])
   \<and> console (fst (endRun later (orchestrator [recording_sink]))) = []"
  by (simp add: orchestrator_def endRun_def)




section \<open>The step tracker\<close>

lemma indexOf_ge: "- 1 \<le> indexOf xs x"
  by (induction xs) (auto simp add: Let_def)

lemma indexOf_mem: "(indexOf xs x > - 1) = (x \<in> set xs)"
  using indexOf_ge[of _ x] by (induction xs) (auto simp add: Let_def)

lemma indexOf_splice1: "x \<in> set xs \<Longrightarrow> splice1 xs (nat (indexOf xs x)) = remove1 x xs"
proof (induction xs)
  case Nil
  then show ?case by simp
next
  case (Cons y ys)
  show ?case
  proof (cases "y = x")
    case True
    then show ?thesis by (simp add: splice1_def)
  next
    case False
    with Cons.prems have mem: "x \<in> set ys" by simp
    then have pos: "indexOf ys x > - 1" by (simp add: indexOf_mem)
    then have "nat (indexOf ys x + 1) = Suc (nat (indexOf ys x))" by simp
    with False pos Cons.IH[OF mem] show ?thesis
      by (simp add: Let_def splice1_def)
  qed
qed

lemma remove_from_stack:
  "(if indexOf xs x > - 1 then splice1 xs (nat (indexOf xs x)) else xs) = remove1 x xs"
  by (simp add: indexOf_mem indexOf_splice1 remove1_idem)

lemma getCurrentStep_last:
  "getCurrentStep w = (if currentSteps w = [] then None else Some (last (currentSteps w)))"
  by (simp add: getCurrentStep_def last_conv_nth)

lemma modify_simps:
  "currentSteps (modify r f w) = currentSteps w"
  "end_calls (modify r f w) = end_calls w"
  "length (heap (modify r f w)) = length (heap w)"
  by (auto simp add: modify_def)

lemma modify_nth:
  "p < length (heap w) \<Longrightarrow> heap (modify r f w) ! p = (if p = r then f (heap w ! p) else heap w ! p)"
  by (auto simp add: modify_def nth_list_update)

lemma pop_step:
  "(if indexOf (currentSteps w) x > - 1
    then w\<lparr>currentSteps := splice1 (currentSteps w) (nat (indexOf (currentSteps w) x))\<rparr>
    else w) = w\<lparr>currentSteps := remove1 x (currentSteps w)\<rparr>"
  by (simp add: indexOf_mem indexOf_splice1 remove1_idem)

lemma Step_end_stack:
  "currentSteps (Step_end this err now w) = remove1 this (currentSteps w)"
  unfolding Step_end_def Let_def pop_step
  by (simp add: modify_simps split: option.splits)

lemma Step_end_calls:
  "end_calls (Step_end this err now w) = end_calls w @ [(this, err)]"
  unfolding Step_end_def Let_def by simp

lemma Step_end_length:
  "length (heap (Step_end this err now w)) = length (heap w)"
  unfolding Step_end_def Let_def pop_step
  by (simp add: modify_simps split: option.splits)

lemma Step_end_heap:
  assumes p: "p < length (heap w)"
  shows "heap (Step_end this err now w) ! p =
     (let s0 = heap w ! p;
          s2 = (if p = this
                then s0\<lparr>step_endTime := Some now,
                        step_durationMs := (case step_startTime s0 of
                                              Some st \<Rightarrow> getTime now - getTime st
                                            | None \<Rightarrow> step_durationMs s0)\<rparr>
                else s0);
          s4 = (if remove1 this (currentSteps w) \<noteq> [] \<and> p = last (remove1 this (currentSteps w))
                then s2\<lparr>children := children s2 @ [this]\<rparr> else s2)
      in if p = this
         then (if truthy err
               then s4\<lparr>step_status := FAILED, error := message_of err, errorTrace := stack_of err\<rparr>
               else s4\<lparr>step_status := PASSED\<rparr>)
         else s4)"
proof -
  define w1 where "w1 = modify this (\<lambda>s. s\<lparr>step_endTime := Some now\<rparr>) w"
  define w2 where "w2 = (case step_startTime (heap w1 ! this) of
                  Some st \<Rightarrow> modify this (\<lambda>s. s\<lparr>step_durationMs := getTime now - getTime st\<rparr>) w1
                | None \<Rightarrow> w1)"
  define w3 where "w3 = w2\<lparr>currentSteps := remove1 this (currentSteps w2)\<rparr>"
  define w4 where "w4 = (case getCurrentStep w3 of
                  Some parent \<Rightarrow> modify parent (\<lambda>p. p\<lparr>children := children p @ [this]\<rparr>) w3
                | None \<Rightarrow> w3)"
  define w5 where "w5 = (if truthy err
                then modify this (\<lambda>s. s\<lparr>step_status := FAILED, error := message_of err,
                                         errorTrace := stack_of err\<rparr>) w4
                else modify this (\<lambda>s. s\<lparr>step_status := PASSED\<rparr>) w4)"
  have E: "Step_end this err now w = w5\<lparr>end_calls := end_calls w @ [(this, err)]\<rparr>"
    unfolding Step_end_def Let_def pop_step w5_def w4_def w3_def w2_def w1_def ..
  define s0 where "s0 = heap w ! p"
  define s2 where "s2 = (if p = this
                then s0\<lparr>step_endTime := Some now,
                        step_durationMs := (case step_startTime s0 of
                                              Some st \<Rightarrow> getTime now - getTime st
                                            | None \<Rightarrow> step_durationMs s0)\<rparr>
                else s0)"
  define s4 where "s4 = (if remove1 this (currentSteps w) \<noteq> [] \<and> p = last (remove1 this (currentSteps w))
                then s2\<lparr>children := children s2 @ [this]\<rparr> else s2)"
  have l1: "length (heap w1) = length (heap w)" and c1: "currentSteps w1 = currentSteps w"
    by (simp_all add: w1_def modify_simps)
  have h1: "heap w1 ! p = (if p = this then s0\<lparr>step_endTime := Some now\<rparr> else s0)"
    using p by (simp add: w1_def modify_nth s0_def)
  have l2: "length (heap w2) = length (heap w)" and c2: "currentSteps w2 = currentSteps w"
    by (simp_all add: w2_def modify_simps l1 c1 split: option.splits)
  have h2: "heap w2 ! p = s2"
  proof (cases "p = this")
    case True
    with h1 have t: "heap w1 ! this = s0\<lparr>step_endTime := Some now\<rparr>" by simp
    show ?thesis
    proof (cases "step_startTime s0")
      case None
      with t True show ?thesis by (simp add: w2_def s2_def)
    next
      case (Some st)
      with t True p l1 show ?thesis by (simp add: w2_def s2_def modify_nth)
    qed
  next
    case False
    with p l1 h1 show ?thesis
      by (simp add: w2_def s2_def modify_nth split: option.splits)
  qed
  have l3: "length (heap w3) = length (heap w)" and h3: "heap w3 ! p = s2"
    and c3: "currentSteps w3 = remove1 this (currentSteps w)"
    by (simp_all add: w3_def l2 h2 c2)
  have l4: "length (heap w4) = length (heap w)"
    by (simp add: w4_def modify_simps l3 split: option.splits)
  have h4: "heap w4 ! p = s4"
    using p l3 h3 c3
    by (auto simp add: w4_def s4_def getCurrentStep_last modify_nth)
  have h5: "heap w5 ! p = (if p = this
         then (if truthy err
               then s4\<lparr>step_status := FAILED, error := message_of err, errorTrace := stack_of err\<rparr>
               else s4\<lparr>step_status := PASSED\<rparr>)
         else s4)"
    using p l4 h4 by (auto simp add: w5_def modify_nth)
  have "heap (Step_end this err now w) ! p = heap w5 ! p"
    by (simp add: E)
  with h5 have r: "heap (Step_end this err now w) ! p = (if p = this
         then (if truthy err
               then s4\<lparr>step_status := FAILED, error := message_of err, errorTrace := stack_of err\<rparr>
               else s4\<lparr>step_status := PASSED\<rparr>)
         else s4)"
    by (simp only:)
  show ?thesis
    unfolding Let_def using r[unfolded s4_def s2_def s0_def] .
qed

lemma Step_end_children:
  "p < length (heap w) \<Longrightarrow>
   children (heap (Step_end this err now w) ! p) =
     (if remove1 this (currentSteps w) \<noteq> [] \<and> p = last (remove1 this (currentSteps w))
      then children (heap w ! p) @ [this] else children (heap w ! p))"
  by (simp add: Step_end_heap Let_def)

lemma Step_end_fields:
  "this < length (heap w) \<Longrightarrow>
   step_endTime (heap (Step_end this err now w) ! this) = Some now
   \<and> step_durationMs (heap (Step_end this err now w) ! this) =
       (case step_startTime (heap w ! this) of
          Some st \<Rightarrow> getTime now - getTime st | None \<Rightarrow> step_durationMs (heap w ! this))
   \<and> step_status (heap (Step_end this err now w) ! this) = (if truthy err then FAILED else PASSED)
   \<and> error (heap (Step_end this err now w) ! this) =
       (if truthy err then message_of err else error (heap w ! this))
   \<and> errorTrace (heap (Step_end this err now w) ! this) =
       (if truthy err then stack_of err else errorTrace (heap w ! this))
   \<and> step_name (heap (Step_end this err now w) ! this) = step_name (heap w ! this)"
  by (simp add: Step_end_heap Let_def)

lemma Step_end_name:
  "p < length (heap w) \<Longrightarrow>
   step_name (heap (Step_end this err now w) ! p) = step_name (heap w ! p)"
  by (simp add: Step_end_heap Let_def)

lemma Step_end_stack_ok: "stack_ok w \<Longrightarrow> stack_ok (Step_end this err now w)"
  by (auto simp add: stack_ok_def Step_end_stack Step_end_length list_all_iff
      dest: notin_set_remove1)

lemma Step_start_simps:
  "currentSteps (Step_start a now w) = currentSteps w @ [a]"
  "end_calls (Step_start a now w) = end_calls w"
  "length (heap (Step_start a now w)) = length (heap w)"
  by (simp_all add: Step_start_def Let_def modify_simps)

lemma Step_start_nth:
  "p < length (heap w) \<Longrightarrow>
   heap (Step_start a now w) ! p =
     (if p = a then (heap w ! p)\<lparr>step_startTime := Some now, step_status := RUNNING\<rparr>
      else heap w ! p)"
  by (simp add: Step_start_def Let_def modify_simps modify_nth)

lemma last_remove1_other:
  "xs \<noteq> [] \<Longrightarrow> last xs \<noteq> x \<Longrightarrow> remove1 x xs \<noteq> [] \<and> last (remove1 x xs) = last xs"
proof (induction xs)
  case Nil
  then show ?case by simp
next
  case (Cons y ys)
  show ?case
  proof (cases "ys = []")
    case True
    with Cons.prems show ?thesis by simp
  next
    case False
    with Cons.prems have "last ys \<noteq> x" by simp
    from Cons.IH[OF False this] False show ?thesis by simp
  qed
qed

lemma two_open_steps_eval:
  "currentSteps two_open_steps = [0, 1]" "length (heap two_open_steps) = 2"
  "stack_ok two_open_steps" "end_calls two_open_steps = []"
  "children (heap two_open_steps ! 0) = []" "children (heap two_open_steps ! 1) = []"
  by (simp_all add: step_defs)

text \<open>
  C4 (as amended). Let \<open>s\<close> be the step that \<^verbatim>\<open>step(name, fn)\<close> creates and starts, and let
  the callback complete in state \<open>w3\<close>. If the callback returns a value, \<^verbatim>\<open>step\<close> calls
  \<^verbatim>\<open>s.end()\<close> once, right after the callback, and returns the value. If it throws \<open>e\<close>,
  \<^verbatim>\<open>step\<close> calls \<^verbatim>\<open>s.end(e)\<close> once and throws the same \<open>e\<close>. If it returns a promise (an
  \<^verbatim>\<open>instanceof Promise\<close>), \<^verbatim>\<open>step\<close> calls no \<^verbatim>\<open>end\<close> yet; when the promise is fulfilled the
  handler calls \<^verbatim>\<open>s.end()\<close> once and passes the value on, when it is rejected with \<open>e\<close> the
  handler calls \<^verbatim>\<open>s.end(e)\<close> once and rejects with the same \<open>e\<close>. If it returns an awaitable
  of another kind, \<^verbatim>\<open>step\<close> calls \<^verbatim>\<open>s.end()\<close> once, at once and without an error, and hands
  the awaitable back untouched: a later rejection reaches the caller unchanged, but no
  \<^verbatim>\<open>end(error)\<close> is called for it. (\<open>end_calls\<close> grows by exactly the one entry in each
  case.)
\<close>

theorem step_ends_exactly_once:
  "new_Step name descr None uuid w = (s, w1) \<and> callback (Step_start s startNow w1) = (w3, result)
   \<longrightarrow>
     (\<forall>v. result = Returns v \<longrightarrow>
        step name descr callback uuid startNow endNow w = (Step_end s None endNow w3, Returned v)
        \<and> end_calls (Step_end s None endNow w3) = end_calls w3 @ [(s, None)])
   \<and> (\<forall>e. result = Throws e \<longrightarrow>
        step name descr callback uuid startNow endNow w = (Step_end s (Some e) endNow w3, Thrown e)
        \<and> end_calls (Step_end s (Some e) endNow w3) = end_calls w3 @ [(s, Some e)])
   \<and> (result = ReturnsPromise \<longrightarrow>
        step name descr callback uuid startNow endNow w = (w3, Pending s)
        \<and> (\<forall>w4 v settleNow.
              step_settled s (Fulfilled v) settleNow w4 = (Step_end s None settleNow w4, Returned v)
              \<and> end_calls (Step_end s None settleNow w4) = end_calls w4 @ [(s, None)])
        \<and> (\<forall>w4 e settleNow.
              step_settled s (Rejected e) settleNow w4
                = (Step_end s (Some e) settleNow w4, Thrown e)
              \<and> end_calls (Step_end s (Some e) settleNow w4) = end_calls w4 @ [(s, Some e)]))
   \<and> (\<forall>awaitable. result = ReturnsThenable awaitable \<longrightarrow>
        step name descr callback uuid startNow endNow w
          = (Step_end s None endNow w3, PassedOn awaitable)
        \<and> end_calls (Step_end s None endNow w3) = end_calls w3 @ [(s, None)])"
  by (simp add: step_def step_settled_def Step_end_calls)

text \<open>
  The three kinds of completion on a first step ``login'': a returned value, a thrown error,
  and a promise that is later rejected.
\<close>

theorem step_ends_exactly_once_witness:
  "snd (step ''login'' None returns_seven ''id-1'' epoch later no_steps) = Returned 7
   \<and> end_calls (fst (step ''login'' None returns_seven ''id-1'' epoch later no_steps)) = [(0, None)]
   \<and> snd (step ''login'' None throws_boom ''id-1'' epoch later no_steps) = Thrown boom
   \<and> end_calls (fst (step ''login'' None throws_boom ''id-1'' epoch later no_steps))
       = [(0, Some boom)]
   \<and> step_status (heap (fst (step ''login'' None throws_boom ''id-1'' epoch later no_steps)) ! 0)
       = FAILED
   \<and> snd (step ''login'' None returns_promise ''id-1'' epoch later no_steps) = Pending 0
   \<and> end_calls (fst (step ''login'' None returns_promise ''id-1'' epoch later no_steps)) = []
   \<and> snd (step_settled 0 (Rejected boom) later
        (fst (step ''login'' None returns_promise ''id-1'' epoch later no_steps)))
       = (Thrown boom :: nat step_outcome)
   \<and> end_calls (fst (step_settled 0 (Rejected boom :: nat settled) later
        (fst (step ''login'' None returns_promise ''id-1'' epoch later no_steps))))
       = [(0, Some boom)]"
proof -
  obtain w1 where n: "new_Step ''login'' None None ''id-1'' no_steps = (0, w1)"
    by (simp add: new_Step_def no_steps_def)
  have e: "end_calls (Step_start 0 epoch w1) = []"
    using n by (auto simp add: new_Step_def no_steps_def Step_start_simps)
  note A = step_ends_exactly_once[of "''login''" None "''id-1''" no_steps 0 w1 returns_seven
      epoch "Step_start 0 epoch w1" "Returns 7" later]
  note B = step_ends_exactly_once[of "''login''" None "''id-1''" no_steps 0 w1 throws_boom
      epoch "Step_start 0 epoch w1" "Throws boom" later]
  note C = step_ends_exactly_once[of "''login''" None "''id-1''" no_steps 0 w1 returns_promise
      epoch "Step_start 0 epoch w1" "ReturnsPromise" later]
  from A n e have a: "snd (step ''login'' None returns_seven ''id-1'' epoch later no_steps) = Returned 7
   \<and> end_calls (fst (step ''login'' None returns_seven ''id-1'' epoch later no_steps)) = [(0, None)]"
    by (simp add: returns_seven_def)
  from B n e have b: "snd (step ''login'' None throws_boom ''id-1'' epoch later no_steps) = Thrown boom
   \<and> end_calls (fst (step ''login'' None throws_boom ''id-1'' epoch later no_steps))
       = [(0, Some boom)]"
    by (simp add: throws_boom_def)
  have b': "step_status (heap (fst (step ''login'' None throws_boom ''id-1'' epoch later no_steps)) ! 0)
       = FAILED"
    by (simp add: step_defs)
  from C n e have c: "step ''login'' None returns_promise ''id-1'' epoch later no_steps
       = (Step_start 0 epoch w1, Pending 0)
     \<and> (\<forall>w4 e settleNow.
              step_settled 0 (Rejected e :: nat settled) settleNow w4
                = (Step_end 0 (Some e) settleNow w4, Thrown e)
              \<and> end_calls (Step_end 0 (Some e) settleNow w4) = end_calls w4 @ [(0, Some e)])"
    unfolding returns_promise_def by blast
  from c e have c': "snd (step ''login'' None returns_promise ''id-1'' epoch later no_steps) = Pending 0
   \<and> end_calls (fst (step ''login'' None returns_promise ''id-1'' epoch later no_steps)) = []
   \<and> snd (step_settled 0 (Rejected boom) later
        (fst (step ''login'' None returns_promise ''id-1'' epoch later no_steps)))
       = (Thrown boom :: nat step_outcome)
   \<and> end_calls (fst (step_settled 0 (Rejected boom :: nat settled) later
        (fst (step ''login'' None returns_promise ''id-1'' epoch later no_steps))))
       = [(0, Some boom)]"
    by simp
  from a b b' c' show ?thesis by blast
qed

text \<open>
  C4 as stated, for every function \<^verbatim>\<open>fn\<close> and every rejected asynchronous completion,
  fails for a callback whose awaitable is not an \<^verbatim>\<open>instanceof Promise\<close>: when
  it rejects with \<open>boom\<close>, the only \<^verbatim>\<open>end\<close> call of the step is the one without an error,
  made before the rejection, and the step is recorded as passed with no error message. The
  rejection itself is not swallowed: the caller holds the rejecting awaitable.
\<close>

theorem step_thenable_counterexample:
  "snd (step ''login'' None returns_rejecting_thenable ''id-1'' epoch later no_steps)
     = PassedOn (Rejected boom)
   \<and> end_calls (fst (step ''login'' None returns_rejecting_thenable ''id-1'' epoch later no_steps))
       = [(0, None)]
   \<and> step_status
        (heap (fst (step ''login'' None returns_rejecting_thenable ''id-1'' epoch later no_steps)) ! 0)
       = PASSED
   \<and> error
        (heap (fst (step ''login'' None returns_rejecting_thenable ''id-1'' epoch later no_steps)) ! 0)
       = None"
  by (simp add: step_defs)

text \<open>
  C5. \<^verbatim>\<open>end\<close> removes the first occurrence of the step from the stack, which for a step on
  top of the stack and nowhere else is a pop; if the stack is not empty afterwards, the
  ended step becomes the last child of the step then on top; if it is empty, no step's
  children change. Starting A, starting B, ending B and ending A, from any state whose stack
  points into the store, leaves A with exactly the one child B, named ``B'', and the stack as
  it was before.
\<close>

theorem end_pops_and_attaches:
  "(currentSteps (Step_end this err now w) = remove1 this (currentSteps w))
   \<and> (currentSteps w = xs @ [this] \<and> this \<notin> set xs \<longrightarrow>
        currentSteps (Step_end this err now w) = xs)
   \<and> (stack_ok w \<and> currentSteps (Step_end this err now w) \<noteq> [] \<longrightarrow>
        children (heap (Step_end this err now w) ! last (currentSteps (Step_end this err now w)))
          = children (heap w ! last (currentSteps (Step_end this err now w))) @ [this])
   \<and> (p < length (heap w) \<and> currentSteps (Step_end this err now w) = [] \<longrightarrow>
        children (heap (Step_end this err now w) ! p) = children (heap w ! p))
   \<and> (stack_ok w \<and> new_Step ''A'' dA pA uA w = (a, w1)
        \<and> new_Step ''B'' dB pB uB (Step_start a t1 w1) = (b, w2)
        \<and> w' = Step_end a errA t4 (Step_end b errB t3 (Step_start b t2 w2)) \<longrightarrow>
        children (heap w' ! a) = [b] \<and> step_name (heap w' ! b) = ''B''
        \<and> currentSteps w' = currentSteps w)"
proof (intro conjI)
  show "currentSteps (Step_end this err now w) = remove1 this (currentSteps w)"
    by (rule Step_end_stack)
next
  show "currentSteps w = xs @ [this] \<and> this \<notin> set xs \<longrightarrow>
        currentSteps (Step_end this err now w) = xs"
    by (simp add: Step_end_stack remove1_append)
next
  show "stack_ok w \<and> currentSteps (Step_end this err now w) \<noteq> [] \<longrightarrow>
        children (heap (Step_end this err now w) ! last (currentSteps (Step_end this err now w)))
          = children (heap w ! last (currentSteps (Step_end this err now w))) @ [this]"
  proof
    assume a: "stack_ok w \<and> currentSteps (Step_end this err now w) \<noteq> []"
    let ?cs = "remove1 this (currentSteps w)"
    from a have ne: "?cs \<noteq> []" by (simp add: Step_end_stack)
    then have "last ?cs \<in> set ?cs" by simp
    then have "last ?cs \<in> set (currentSteps w)"
      using set_remove1_subset[of this "currentSteps w"] by blast
    with a have "last ?cs < length (heap w)" by (simp add: stack_ok_def list_all_iff)
    from Step_end_children[OF this, of this err now] ne
    show "children (heap (Step_end this err now w) ! last (currentSteps (Step_end this err now w)))
            = children (heap w ! last (currentSteps (Step_end this err now w))) @ [this]"
      by (simp add: Step_end_stack)
  qed
next
  show "p < length (heap w) \<and> currentSteps (Step_end this err now w) = [] \<longrightarrow>
        children (heap (Step_end this err now w) ! p) = children (heap w ! p)"
    by (simp add: Step_end_children Step_end_stack)
next
  show "stack_ok w \<and> new_Step ''A'' dA pA uA w = (a, w1)
        \<and> new_Step ''B'' dB pB uB (Step_start a t1 w1) = (b, w2)
        \<and> w' = Step_end a errA t4 (Step_end b errB t3 (Step_start b t2 w2)) \<longrightarrow>
        children (heap w' ! a) = [b] \<and> step_name (heap w' ! b) = ''B''
        \<and> currentSteps w' = currentSteps w"
  proof
    assume s: "stack_ok w \<and> new_Step ''A'' dA pA uA w = (a, w1)
          \<and> new_Step ''B'' dB pB uB (Step_start a t1 w1) = (b, w2)
          \<and> w' = Step_end a errA t4 (Step_end b errB t3 (Step_start b t2 w2))"
    let ?cs = "currentSteps w"
    let ?n = "length (heap w)"
    from s have below: "\<forall>r\<in>set ?cs. r < ?n" by (simp add: stack_ok_def list_all_iff)
    from s have a: "a = ?n" and l1: "length (heap w1) = Suc ?n" and c1: "currentSteps w1 = ?cs"
      and ca1: "children (heap w1 ! a) = []"
      by (auto simp add: new_Step_def)
    let ?w1' = "Step_start a t1 w1"
    have c1': "currentSteps ?w1' = ?cs @ [a]" and l1': "length (heap ?w1') = Suc ?n"
      and ca1': "children (heap ?w1' ! a) = []"
      using a l1 c1 ca1 by (simp_all add: Step_start_simps Step_start_nth)
    from s have b: "b = Suc ?n" and l2: "length (heap w2) = Suc (Suc ?n)"
      and c2: "currentSteps w2 = ?cs @ [a]" and ca2: "children (heap w2 ! a) = []"
      and nb2: "step_name (heap w2 ! b) = ''B''"
      using l1' c1' ca1' a by (auto simp add: new_Step_def nth_append)
    let ?w3 = "Step_start b t2 w2"
    have c3: "currentSteps ?w3 = ?cs @ [a, b]" and l3: "length (heap ?w3) = Suc (Suc ?n)"
      and ca3: "children (heap ?w3 ! a) = []" and nb3: "step_name (heap ?w3 ! b) = ''B''"
      using a b l2 c2 ca2 nb2 by (simp_all add: Step_start_simps Step_start_nth)
    have b_notin: "b \<notin> set ?cs" and a_notin: "a \<notin> set ?cs" and ab: "a \<noteq> b"
      using below a b by auto
    let ?w4 = "Step_end b errB t3 ?w3"
    have c4: "currentSteps ?w4 = ?cs @ [a]"
      using c3 b_notin ab by (simp add: Step_end_stack remove1_append)
    have l4: "length (heap ?w4) = Suc (Suc ?n)" by (simp add: Step_end_length l3)
    have ca4: "children (heap ?w4 ! a) = [b]"
      using Step_end_children[of a ?w3 b errB t3] a l3 c3 ca3 b_notin ab
      by (simp add: remove1_append)
    have nb4: "step_name (heap ?w4 ! b) = ''B''"
      using Step_end_name[of b ?w3 b errB t3] b l3 nb3 by simp
    have w': "w' = Step_end a errA t4 ?w4" using s by simp
    have c5: "currentSteps w' = ?cs"
      using c4 a_notin by (simp add: w' Step_end_stack remove1_append)
    have last_ne: "?cs \<noteq> [] \<Longrightarrow> a \<noteq> last ?cs"
      using a_notin last_in_set by metis
    have ca5: "children (heap w' ! a) = [b]"
      using Step_end_children[of a ?w4 a errA t4] a l4 c4 ca4 a_notin last_ne
      by (auto simp add: w' remove1_append)
    have nb5: "step_name (heap w' ! b) = ''B''"
      using Step_end_name[of b ?w4 a errA t4] b l4 nb4 by (simp add: w')
    from ca5 nb5 c5
    show "children (heap w' ! a) = [b] \<and> step_name (heap w' ! b) = ''B''
          \<and> currentSteps w' = currentSteps w"
      by simp
  qed
qed

theorem end_pops_and_attaches_witness:
  "stack_ok two_open_steps \<and> currentSteps two_open_steps = [0] @ [1]
   \<and> currentSteps (Step_end 1 None later two_open_steps) = [0]
   \<and> children (heap (Step_end 1 None later two_open_steps) ! 0) = [1]
   \<and> currentSteps (Step_end 0 None later (Step_end 1 None later two_open_steps)) = []
   \<and> children (heap (Step_end 0 None later (Step_end 1 None later two_open_steps)) ! 0) = [1]
   \<and> step_name (heap (Step_end 0 None later (Step_end 1 None later two_open_steps)) ! 1) = ''B''"
proof -
  obtain w1 w2 where n: "new_Step ''A'' None None ''id-a'' no_steps = (0, w1)"
    "new_Step ''B'' None None ''id-b'' (Step_start 0 epoch w1) = (1, w2)"
    "two_open_steps = Step_start 1 epoch w2"
    by (simp add: two_open_steps_def new_Step_def no_steps_def Step_start_simps)
  have ok: "stack_ok no_steps" by (simp add: stack_ok_def no_steps_def)
  note T = end_pops_and_attaches[where this = 1 and err = None and now = later
      and w = two_open_steps and xs = "[0]" and p = 0]
  note U = end_pops_and_attaches[where w = no_steps and dA = None and pA = None
      and uA = "''id-a''" and a = 0 and ?w1.0 = w1 and dB = None and pB = None
      and uB = "''id-b''" and ?t1.0 = epoch and b = 1 and ?w2.0 = w2 and ?t2.0 = epoch
      and errB = None and ?t3.0 = later and errA = None and ?t4.0 = later
      and ?w' = "Step_end 0 None later (Step_end 1 None later two_open_steps)"]
  have pop: "currentSteps (Step_end 1 None later two_open_steps) = [0]"
    using T[THEN conjunct2, THEN conjunct1] two_open_steps_eval by simp
  have att: "children (heap (Step_end 1 None later two_open_steps) ! 0) = [1]"
    using T[THEN conjunct2, THEN conjunct2, THEN conjunct1] two_open_steps_eval pop by simp
  have scen: "children (heap (Step_end 0 None later (Step_end 1 None later two_open_steps)) ! 0) = [1]
     \<and> step_name (heap (Step_end 0 None later (Step_end 1 None later two_open_steps)) ! 1) = ''B''
     \<and> currentSteps (Step_end 0 None later (Step_end 1 None later two_open_steps)) = []"
    using U[THEN conjunct2, THEN conjunct2, THEN conjunct2, THEN conjunct2] ok n
    by (simp add: no_steps_def)
  note first = pop att
  from first scen two_open_steps_eval show ?thesis by simp
qed

text \<open>
  C9. \<^verbatim>\<open>end\<close> on a step that is not on top of the stack (it is further down, or not on
  the stack at all): the model of \<^verbatim>\<open>end\<close> has no failing branch, as the source has no
  \<^verbatim>\<open>throw\<close>. The first occurrence of the step is removed from wherever it is (with a
  duplicate-free stack it is then gone from the stack), the step on top, if there is one,
  stays on top, and the rest of \<^verbatim>\<open>end\<close> completes: end time, duration, status and error
  fields are set, the step becomes the last child of the step on top, and the call is
  recorded.
\<close>

theorem end_out_of_order:
  "stack_ok w \<and> this < length (heap w)
     \<and> (currentSteps w = [] \<or> last (currentSteps w) \<noteq> this)
   \<longrightarrow>
     currentSteps (Step_end this err now w) = remove1 this (currentSteps w)
   \<and> (distinct (currentSteps w) \<longrightarrow> this \<notin> set (currentSteps (Step_end this err now w)))
   \<and> (currentSteps w \<noteq> [] \<longrightarrow>
        currentSteps (Step_end this err now w) \<noteq> []
        \<and> last (currentSteps (Step_end this err now w)) = last (currentSteps w)
        \<and> children (heap (Step_end this err now w) ! last (currentSteps w))
            = children (heap w ! last (currentSteps w)) @ [this])
   \<and> step_endTime (heap (Step_end this err now w) ! this) = Some now
   \<and> step_durationMs (heap (Step_end this err now w) ! this) =
       (case step_startTime (heap w ! this) of
          Some st \<Rightarrow> getTime now - getTime st | None \<Rightarrow> step_durationMs (heap w ! this))
   \<and> step_status (heap (Step_end this err now w) ! this) = (if truthy err then FAILED else PASSED)
   \<and> error (heap (Step_end this err now w) ! this) =
       (if truthy err then message_of err else error (heap w ! this))
   \<and> errorTrace (heap (Step_end this err now w) ! this) =
       (if truthy err then stack_of err else errorTrace (heap w ! this))
   \<and> end_calls (Step_end this err now w) = end_calls w @ [(this, err)]"
proof
  assume a: "stack_ok w \<and> this < length (heap w)
     \<and> (currentSteps w = [] \<or> last (currentSteps w) \<noteq> this)"
  let ?cs = "currentSteps w"
  let ?w' = "Step_end this err now w"
  have top: "?cs \<noteq> [] \<longrightarrow>
        currentSteps ?w' \<noteq> [] \<and> last (currentSteps ?w') = last ?cs
        \<and> children (heap ?w' ! last ?cs) = children (heap w ! last ?cs) @ [this]"
  proof
    assume ne: "?cs \<noteq> []"
    with a have "last ?cs \<noteq> this" by simp
    with ne have lr: "remove1 this ?cs \<noteq> [] \<and> last (remove1 this ?cs) = last ?cs"
      using last_remove1_other[of ?cs this] by simp
    from ne have "last ?cs \<in> set ?cs" by simp
    with a have "last ?cs < length (heap w)" by (simp add: stack_ok_def list_all_iff)
    from Step_end_children[OF this, of this err now] lr
    show "currentSteps ?w' \<noteq> [] \<and> last (currentSteps ?w') = last ?cs
        \<and> children (heap ?w' ! last ?cs) = children (heap w ! last ?cs) @ [this]"
      by (simp add: Step_end_stack)
  qed
  from a have f: "this < length (heap w)" by simp
  show "currentSteps ?w' = remove1 this (currentSteps w)
   \<and> (distinct (currentSteps w) \<longrightarrow> this \<notin> set (currentSteps ?w'))
   \<and> (currentSteps w \<noteq> [] \<longrightarrow>
        currentSteps ?w' \<noteq> []
        \<and> last (currentSteps ?w') = last (currentSteps w)
        \<and> children (heap ?w' ! last (currentSteps w))
            = children (heap w ! last (currentSteps w)) @ [this])
   \<and> step_endTime (heap ?w' ! this) = Some now
   \<and> step_durationMs (heap ?w' ! this) =
       (case step_startTime (heap w ! this) of
          Some st \<Rightarrow> getTime now - getTime st | None \<Rightarrow> step_durationMs (heap w ! this))
   \<and> step_status (heap ?w' ! this) = (if truthy err then FAILED else PASSED)
   \<and> error (heap ?w' ! this) =
       (if truthy err then message_of err else error (heap w ! this))
   \<and> errorTrace (heap ?w' ! this) =
       (if truthy err then stack_of err else errorTrace (heap w ! this))
   \<and> end_calls ?w' = end_calls w @ [(this, err)]"
    using Step_end_fields[OF f, of err now] top
    by (simp add: Step_end_stack Step_end_calls)
qed

theorem end_out_of_order_witness:
  "stack_ok two_open_steps \<and> 0 < length (heap two_open_steps)
   \<and> currentSteps two_open_steps = [0, 1]
   \<and> currentSteps (Step_end 0 (Some boom) later two_open_steps) = [1]
   \<and> step_status (heap (Step_end 0 (Some boom) later two_open_steps) ! 0) = FAILED
   \<and> error (heap (Step_end 0 (Some boom) later two_open_steps) ! 0) = Some ''boom''
   \<and> step_endTime (heap (Step_end 0 (Some boom) later two_open_steps) ! 0) = Some later
   \<and> step_durationMs (heap (Step_end 0 (Some boom) later two_open_steps) ! 0) = 1500
   \<and> children (heap (Step_end 0 (Some boom) later two_open_steps) ! 1) = [0]
   \<and> end_calls (Step_end 0 (Some boom) later two_open_steps) = [(0, Some boom)]"
proof -
  have st: "step_startTime (heap two_open_steps ! 0) = Some epoch"
    by (simp add: step_defs)
  from end_out_of_order[of two_open_steps 0 "Some boom" later] two_open_steps_eval st
  show ?thesis
    by (simp add: boom_def epoch_def later_def)
qed

section \<open>The Remote-API sink\<close>

lemma say_simps:
  "batch (say ls s) = batch s" "api_currentRun (say ls s) = api_currentRun s"
  "requests (say ls s) = requests s" "api_config (say ls s) = api_config s"
  "batch (warn_failure h s) = batch s" "api_currentRun (warn_failure h s) = api_currentRun s"
  "requests (warn_failure h s) = requests s" "api_config (warn_failure h s) = api_config s"
  by (simp_all add: say_def warn_failure_def)

lemma flushBatch_spec:
  "api_currentRun s = Some cur \<Longrightarrow>
     batch (flushBatch http s) = []
     \<and> requests (flushBatch http s) =
         (if batch s = [] then requests s
          else requests s @ [POST (results_url s cur) (ResultsBody (batch s))])
     \<and> api_currentRun (flushBatch http s) = Some cur
     \<and> api_config (flushBatch http s) = api_config s"
  by (cases "http (length (requests s))")
     (simp_all add: flushBatch_def Let_def send_def say_simps results_url_def)

lemma API_reportTest_spec:
  assumes "api_enabled (cfg_api (api_config s))" "api_currentRun s = Some cur"
  shows "batch (API_reportTest http t s) =
           (if int (length (batch s)) + 1 \<ge> batchSize (cfg_api (api_config s)) then []
            else batch s @ [t])
     \<and> requests (API_reportTest http t s) =
           (if int (length (batch s)) + 1 \<ge> batchSize (cfg_api (api_config s))
            then requests s @ [POST (results_url s cur) (ResultsBody (batch s @ [t]))]
            else requests s)
     \<and> api_currentRun (API_reportTest http t s) = Some cur
     \<and> api_config (API_reportTest http t s) = api_config s"
proof (cases "int (length (batch s)) + 1 \<ge> batchSize (cfg_api (api_config s))")
  case True
  let ?s2 = "say [Log ''[APIReporter] Batch size reached, flushing batch'']
       ((say [Log ''[APIReporter] Adding test to batch:'']
          (say [Log ''[APIReporter] reportTest called for:''] s))
        \<lparr>batch := batch (say [Log ''[APIReporter] Adding test to batch:'']
          (say [Log ''[APIReporter] reportTest called for:''] s)) @ [t]\<rparr>)"
  have s2: "api_currentRun ?s2 = Some cur" "batch ?s2 = batch s @ [t]"
    "requests ?s2 = requests s" "api_config ?s2 = api_config s"
    using assms by (simp_all add: say_def)
  have r: "API_reportTest http t s = flushBatch http ?s2"
    using assms True by (simp add: API_reportTest_def Let_def say_simps)
  from flushBatch_spec[OF s2(1), of http] True show ?thesis
    by (simp add: r s2 results_url_def)
next
  case False
  with assms show ?thesis
    by (simp add: API_reportTest_def Let_def say_simps)
qed

lemma API_startRun_spec:
  "api_enabled (cfg_api (api_config s)) \<Longrightarrow>
     batch (API_startRun http run s) = [] \<and> api_currentRun (API_startRun http run s) = Some run
     \<and> requests (API_startRun http run s)
         = requests s @ [POST (api_url (cfg_api (api_config s)) @ ''/api/v1/runs'') (RunBody run)]
     \<and> api_config (API_startRun http run s) = api_config s"
  by (cases "http (length (requests s))")
     (simp_all add: API_startRun_def Let_def send_def say_simps)

lemma API_endRun_spec:
  assumes "api_enabled (cfg_api (api_config s))" "api_currentRun s = Some cur"
  shows "batch (API_endRun http run s) = []
     \<and> requests (API_endRun http run s) =
         (if batch s = [] then requests s
          else requests s @ [POST (results_url s cur) (ResultsBody (batch s))])
         @ [PATCH (api_url (cfg_api (api_config s)) @ ''/api/v1/runs/'' @ run_id run)
              (PatchBody run)]"
proof -
  let ?s1 = "say [Log ''[APIReporter] endRun called, batch size:''] s"
  let ?f = "flushBatch http (say [Log ''[APIReporter] Flushing remaining''] ?s1)"
  have c: "api_currentRun (say [Log ''[APIReporter] Flushing remaining''] ?s1) = Some cur"
    using assms by (simp add: say_simps)
  note F = flushBatch_spec[OF c, of http]
  show ?thesis
  proof (cases "batch s = []")
    case True
    with assms show ?thesis
      by (cases "http (length (requests s))")
         (simp_all add: API_endRun_def Let_def send_def say_simps)
  next
    case False
    let ?s3 = "say [Log ''[APIReporter] Finalizing run with test counts:'',
                       Log ''[APIReporter] PATCH to:'', Log ''[APIReporter] PATCH data:'']
                (say [Log ''[APIReporter] Batch flushed, waiting for processing...''] ?f)"
    have s3: "batch ?s3 = []"
      "requests ?s3 = requests s @ [POST (results_url s cur) (ResultsBody (batch s))]"
      using F False by (simp_all add: say_simps results_url_def)
    have e: "API_endRun http run s =
        (case send http (PATCH (api_url (cfg_api (api_config s)) @ ''/api/v1/runs/''
                                     @ run_id run) (PatchBody run)) ?s3 of
              (s4, True) \<Rightarrow> say [Log ''[APIReporter] Run finalized successfully:''] s4
            | (s4, False) \<Rightarrow> warn_failure ''[APIReporter] Failed to finalize run with API:'' s4)"
      using assms False by (simp add: API_endRun_def Let_def say_simps)
    show ?thesis
      unfolding e using s3 False
      by (cases "http (length (requests ?s3))") (simp_all add: send_def say_simps)
  qed
qed

lemma fresh_api_sink_eval:
  "api_enabled (cfg_api (api_config fresh_api_sink))"
  "batchSize (cfg_api (api_config fresh_api_sink)) = 2"
  "requests fresh_api_sink = []" "batch fresh_api_sink = []"
  "api_url (cfg_api (api_config fresh_api_sink)) = ''http://localhost:8080''"
  by (simp_all add: api_defs)

lemma API_reportTest_general:
  assumes "api_enabled (cfg_api (api_config s))"
  shows "batch (API_reportTest http t s) =
           (if batchSize (cfg_api (api_config s)) \<le> int (length (batch s)) + 1
               \<and> api_currentRun s \<noteq> None
            then [] else batch s @ [t])
     \<and> requests (API_reportTest http t s) =
           (if batchSize (cfg_api (api_config s)) \<le> int (length (batch s)) + 1
            then (case api_currentRun s of
                    None \<Rightarrow> requests s
                  | Some cur \<Rightarrow>
                      requests s @ [POST (results_url s cur) (ResultsBody (batch s @ [t]))])
            else requests s)
     \<and> api_currentRun (API_reportTest http t s) = api_currentRun s"
proof (cases "api_currentRun s")
  case (Some cur)
  with API_reportTest_spec[OF assms Some, of http t] show ?thesis by simp
next
  case None
  then have f: "\<And>s'. api_currentRun s' = None \<Longrightarrow> flushBatch http s' = s'"
    by (simp add: flushBatch_def)
  show ?thesis
    using assms None by (simp add: API_reportTest_def Let_def say_simps f)
qed

lemma API_reportTest_disabled:
  "\<not> api_enabled (cfg_api (api_config s)) \<Longrightarrow>
     batch (API_reportTest http t s) = batch s \<and> requests (API_reportTest http t s) = requests s"
  by (simp add: API_reportTest_def Let_def say_simps)

lemma batch_flush_after_startRun:
  "(api_enabled (cfg_api (api_config s)) \<and> api_currentRun s = Some cur
      \<and> int (length (batch s)) < batchSize (cfg_api (api_config s)) \<longrightarrow>
        (int (length (batch s)) + 1 = batchSize (cfg_api (api_config s)) \<longrightarrow>
           batch (API_reportTest http t s) = []
           \<and> requests (API_reportTest http t s)
               = requests s @ [POST (results_url s cur) (ResultsBody (batch s @ [t]))])
      \<and> (int (length (batch s)) + 1 \<noteq> batchSize (cfg_api (api_config s)) \<longrightarrow>
           batch (API_reportTest http t s) = batch s @ [t]
           \<and> requests (API_reportTest http t s) = requests s)
      \<and> int (length (batch (API_reportTest http t s))) < batchSize (cfg_api (api_config s))
      \<and> api_currentRun (API_reportTest http t s) = Some cur)
   \<and> (api_currentRun s = Some cur \<longrightarrow>
        batch (flushBatch http s) = []
        \<and> (batch s \<noteq> [] \<longrightarrow>
             requests (flushBatch http s)
               = requests s @ [POST (results_url s cur) (ResultsBody (batch s))]))
   \<and> (api_enabled (cfg_api (api_config s)) \<longrightarrow>
        batch (API_startRun http run s) = []
        \<and> api_currentRun (API_startRun http run s) = Some run)
   \<and> (api_enabled (cfg_api (api_config s)) \<and> batchSize (cfg_api (api_config s)) = 2 \<longrightarrow>
        requests (API_endRun http run'
           (API_reportTest http t3 (API_reportTest http t2 (API_reportTest http t1
              (API_startRun http run s)))))
        = requests s @
          [POST (api_url (cfg_api (api_config s)) @ ''/api/v1/runs'') (RunBody run),
           POST (results_url s run) (ResultsBody [t1, t2]),
           POST (results_url s run) (ResultsBody [t3]),
           PATCH (api_url (cfg_api (api_config s)) @ ''/api/v1/runs/'' @ run_id run')
             (PatchBody run')])"
proof (intro conjI)
  show "api_enabled (cfg_api (api_config s)) \<and> api_currentRun s = Some cur
      \<and> int (length (batch s)) < batchSize (cfg_api (api_config s)) \<longrightarrow>
        (int (length (batch s)) + 1 = batchSize (cfg_api (api_config s)) \<longrightarrow>
           batch (API_reportTest http t s) = []
           \<and> requests (API_reportTest http t s)
               = requests s @ [POST (results_url s cur) (ResultsBody (batch s @ [t]))])
      \<and> (int (length (batch s)) + 1 \<noteq> batchSize (cfg_api (api_config s)) \<longrightarrow>
           batch (API_reportTest http t s) = batch s @ [t]
           \<and> requests (API_reportTest http t s) = requests s)
      \<and> int (length (batch (API_reportTest http t s))) < batchSize (cfg_api (api_config s))
      \<and> api_currentRun (API_reportTest http t s) = Some cur"
  proof
    assume a: "api_enabled (cfg_api (api_config s)) \<and> api_currentRun s = Some cur
      \<and> int (length (batch s)) < batchSize (cfg_api (api_config s))"
    then have en: "api_enabled (cfg_api (api_config s))" and cur: "api_currentRun s = Some cur"
      and lt: "int (length (batch s)) < batchSize (cfg_api (api_config s))"
      by simp_all
    from API_reportTest_spec[OF en cur, of http t] lt
    show "(int (length (batch s)) + 1 = batchSize (cfg_api (api_config s)) \<longrightarrow>
           batch (API_reportTest http t s) = []
           \<and> requests (API_reportTest http t s)
               = requests s @ [POST (results_url s cur) (ResultsBody (batch s @ [t]))])
      \<and> (int (length (batch s)) + 1 \<noteq> batchSize (cfg_api (api_config s)) \<longrightarrow>
           batch (API_reportTest http t s) = batch s @ [t]
           \<and> requests (API_reportTest http t s) = requests s)
      \<and> int (length (batch (API_reportTest http t s))) < batchSize (cfg_api (api_config s))
      \<and> api_currentRun (API_reportTest http t s) = Some cur"
      by auto
  qed
next
  show "api_currentRun s = Some cur \<longrightarrow>
        batch (flushBatch http s) = []
        \<and> (batch s \<noteq> [] \<longrightarrow>
             requests (flushBatch http s)
               = requests s @ [POST (results_url s cur) (ResultsBody (batch s))])"
    using flushBatch_spec[of s cur http] by simp
next
  show "api_enabled (cfg_api (api_config s)) \<longrightarrow>
        batch (API_startRun http run s) = []
        \<and> api_currentRun (API_startRun http run s) = Some run"
    using API_startRun_spec[of s http run] by simp
next
  show "api_enabled (cfg_api (api_config s)) \<and> batchSize (cfg_api (api_config s)) = 2 \<longrightarrow>
        requests (API_endRun http run'
           (API_reportTest http t3 (API_reportTest http t2 (API_reportTest http t1
              (API_startRun http run s)))))
        = requests s @
          [POST (api_url (cfg_api (api_config s)) @ ''/api/v1/runs'') (RunBody run),
           POST (results_url s run) (ResultsBody [t1, t2]),
           POST (results_url s run) (ResultsBody [t3]),
           PATCH (api_url (cfg_api (api_config s)) @ ''/api/v1/runs/'' @ run_id run')
             (PatchBody run')]"
  proof
    assume a: "api_enabled (cfg_api (api_config s)) \<and> batchSize (cfg_api (api_config s)) = 2"
    let ?s0 = "API_startRun http run s"
    let ?s1 = "API_reportTest http t1 ?s0"
    let ?s2 = "API_reportTest http t2 ?s1"
    let ?s3 = "API_reportTest http t3 ?s2"
    from a have en: "api_enabled (cfg_api (api_config s))"
      and two: "batchSize (cfg_api (api_config s)) = 2" by simp_all
    from API_startRun_spec[OF en, of http run]
    have s0: "batch ?s0 = []" "api_currentRun ?s0 = Some run"
      "requests ?s0 = requests s @ [POST (api_url (cfg_api (api_config s)) @ ''/api/v1/runs'')
         (RunBody run)]"
      "api_config ?s0 = api_config s"
      by simp_all
    have en0: "api_enabled (cfg_api (api_config ?s0))" using en s0(4) by simp
    from API_reportTest_spec[OF en0 s0(2), of http t1] s0 two
    have s1: "batch ?s1 = [t1]" "api_currentRun ?s1 = Some run" "requests ?s1 = requests ?s0"
      "api_config ?s1 = api_config s"
      by simp_all
    have en1: "api_enabled (cfg_api (api_config ?s1))" using en s1(4) by simp
    from API_reportTest_spec[OF en1 s1(2), of http t2] s1 two
    have s2: "batch ?s2 = []" "api_currentRun ?s2 = Some run"
      "requests ?s2 = requests ?s0 @ [POST (results_url s run) (ResultsBody [t1, t2])]"
      "api_config ?s2 = api_config s"
      by (simp_all add: results_url_def)
    have en2: "api_enabled (cfg_api (api_config ?s2))" using en s2(4) by simp
    from API_reportTest_spec[OF en2 s2(2), of http t3] s2 two
    have s3: "batch ?s3 = [t3]" "api_currentRun ?s3 = Some run" "requests ?s3 = requests ?s2"
      "api_config ?s3 = api_config s"
      by simp_all
    have en3: "api_enabled (cfg_api (api_config ?s3))" using en s3(4) by simp
    from API_endRun_spec[OF en3 s3(2), of http run'] s3 s2(3) s0(3)
    show "requests (API_endRun http run' ?s3)
        = requests s @
          [POST (api_url (cfg_api (api_config s)) @ ''/api/v1/runs'') (RunBody run),
           POST (results_url s run) (ResultsBody [t1, t2]),
           POST (results_url s run) (ResultsBody [t3]),
           PATCH (api_url (cfg_api (api_config s)) @ ''/api/v1/runs/'' @ run_id run')
             (PatchBody run')]"
      by (simp add: results_url_def)
  qed
qed

text \<open>
  C3 (as amended). An enabled API sink's \<^verbatim>\<open>reportTest\<close> appends the test and calls
  \<^verbatim>\<open>flushBatch\<close> when the buffer has then at least \<open>B\<close> tests (the source compares with
  \<^verbatim>\<open>>=\<close>); \<^verbatim>\<open>flushBatch\<close> does nothing while the sink has no current run, that is, before
  the sink's own \<^verbatim>\<open>startRun\<close>: no request goes out and the buffer keeps every test. With a
  current run the flush sends one results request carrying the buffer with the new test and
  leaves the buffer empty, whatever the outcome \<open>http\<close> gives to the request. A disabled sink's
  \<^verbatim>\<open>reportTest\<close> changes neither the buffer nor the requests. After the sink's \<^verbatim>\<open>startRun\<close>,
  which establishes the empty buffer, and with the buffer shorter than \<open>B\<close>, the flush happens
  exactly when the buffer reaches length \<open>B\<close>, and the buffer is again shorter than \<open>B\<close>
  afterwards. With \<open>B = 2\<close>, \<^verbatim>\<open>startRun\<close>, three \<^verbatim>\<open>reportTest\<close> and \<^verbatim>\<open>endRun\<close> issue, whatever
  the outcomes, exactly: the registration, one results request with the first two tests, one
  results request with the third, and then the \<^verbatim>\<open>PATCH\<close>.
\<close>

theorem batch_flush_policy:
  "(api_enabled (cfg_api (api_config s)) \<longrightarrow>
      batch (API_reportTest http t s) =
        (if batchSize (cfg_api (api_config s)) \<le> int (length (batch s)) + 1
            \<and> api_currentRun s \<noteq> None
         then [] else batch s @ [t])
      \<and> requests (API_reportTest http t s) =
        (if batchSize (cfg_api (api_config s)) \<le> int (length (batch s)) + 1
         then (case api_currentRun s of
                 None \<Rightarrow> requests s
               | Some cur \<Rightarrow>
                   requests s @ [POST (results_url s cur) (ResultsBody (batch s @ [t]))])
         else requests s))
   \<and> (\<not> api_enabled (cfg_api (api_config s)) \<longrightarrow>
        batch (API_reportTest http t s) = batch s
        \<and> requests (API_reportTest http t s) = requests s)
   \<and> (api_currentRun s = None \<longrightarrow> flushBatch http s = s)
   \<and> (api_enabled (cfg_api (api_config s)) \<and> api_currentRun s = Some cur
      \<and> int (length (batch s)) < batchSize (cfg_api (api_config s)) \<longrightarrow>
        (int (length (batch s)) + 1 = batchSize (cfg_api (api_config s)) \<longrightarrow>
           batch (API_reportTest http t s) = []
           \<and> requests (API_reportTest http t s)
               = requests s @ [POST (results_url s cur) (ResultsBody (batch s @ [t]))])
      \<and> (int (length (batch s)) + 1 \<noteq> batchSize (cfg_api (api_config s)) \<longrightarrow>
           batch (API_reportTest http t s) = batch s @ [t]
           \<and> requests (API_reportTest http t s) = requests s)
      \<and> int (length (batch (API_reportTest http t s))) < batchSize (cfg_api (api_config s))
      \<and> api_currentRun (API_reportTest http t s) = Some cur)
   \<and> (api_currentRun s = Some cur \<longrightarrow>
        batch (flushBatch http s) = []
        \<and> (batch s \<noteq> [] \<longrightarrow>
             requests (flushBatch http s)
               = requests s @ [POST (results_url s cur) (ResultsBody (batch s))]))
   \<and> (api_enabled (cfg_api (api_config s)) \<longrightarrow>
        batch (API_startRun http run s) = []
        \<and> api_currentRun (API_startRun http run s) = Some run)
   \<and> (api_enabled (cfg_api (api_config s)) \<and> batchSize (cfg_api (api_config s)) = 2 \<longrightarrow>
        requests (API_endRun http run'
           (API_reportTest http t3 (API_reportTest http t2 (API_reportTest http t1
              (API_startRun http run s)))))
        = requests s @
          [POST (api_url (cfg_api (api_config s)) @ ''/api/v1/runs'') (RunBody run),
           POST (results_url s run) (ResultsBody [t1, t2]),
           POST (results_url s run) (ResultsBody [t3]),
           PATCH (api_url (cfg_api (api_config s)) @ ''/api/v1/runs/'' @ run_id run')
             (PatchBody run')])"
proof (intro conjI)
  show "api_enabled (cfg_api (api_config s)) \<longrightarrow>
      batch (API_reportTest http t s) =
        (if batchSize (cfg_api (api_config s)) \<le> int (length (batch s)) + 1
            \<and> api_currentRun s \<noteq> None
         then [] else batch s @ [t])
      \<and> requests (API_reportTest http t s) =
        (if batchSize (cfg_api (api_config s)) \<le> int (length (batch s)) + 1
         then (case api_currentRun s of
                 None \<Rightarrow> requests s
               | Some cur \<Rightarrow>
                   requests s @ [POST (results_url s cur) (ResultsBody (batch s @ [t]))])
         else requests s)"
    using API_reportTest_general[of s http t] by simp
next
  show "\<not> api_enabled (cfg_api (api_config s)) \<longrightarrow>
        batch (API_reportTest http t s) = batch s
        \<and> requests (API_reportTest http t s) = requests s"
    using API_reportTest_disabled[of s http t] by simp
next
  show "api_currentRun s = None \<longrightarrow> flushBatch http s = s"
    by (simp add: flushBatch_def)
qed (rule batch_flush_after_startRun[THEN conjunct1]
     batch_flush_after_startRun[THEN conjunct2, THEN conjunct1]
     batch_flush_after_startRun[THEN conjunct2, THEN conjunct2, THEN conjunct1]
     batch_flush_after_startRun[THEN conjunct2, THEN conjunct2, THEN conjunct2])+

text \<open>
  The scenario on the example sink, with the second request (the first flush) failing.
\<close>

theorem batch_flush_policy_witness:
  "api_enabled (cfg_api (api_config fresh_api_sink))
   \<and> batchSize (cfg_api (api_config fresh_api_sink)) = 2
   \<and> batch (API_reportTest (\<lambda>n. n \<noteq> 1) (example_test ''a'' PASSED)
        (API_startRun (\<lambda>n. n \<noteq> 1) example_run fresh_api_sink)) = [example_test ''a'' PASSED]
   \<and> batch (API_reportTest (\<lambda>n. n \<noteq> 1) (example_test ''b'' FAILED)
        (API_reportTest (\<lambda>n. n \<noteq> 1) (example_test ''a'' PASSED)
          (API_startRun (\<lambda>n. n \<noteq> 1) example_run fresh_api_sink))) = []
   \<and> requests (API_endRun (\<lambda>n. n \<noteq> 1) example_run
        (API_reportTest (\<lambda>n. n \<noteq> 1) (example_test ''c'' PASSED)
          (API_reportTest (\<lambda>n. n \<noteq> 1) (example_test ''b'' FAILED)
            (API_reportTest (\<lambda>n. n \<noteq> 1) (example_test ''a'' PASSED)
              (API_startRun (\<lambda>n. n \<noteq> 1) example_run fresh_api_sink)))))
       = [POST ''http://localhost:8080/api/v1/runs'' (RunBody example_run),
          POST ''http://localhost:8080/api/v1/runs/run-1/results''
            (ResultsBody [example_test ''a'' PASSED, example_test ''b'' FAILED]),
          POST ''http://localhost:8080/api/v1/runs/run-1/results''
            (ResultsBody [example_test ''c'' PASSED]),
          PATCH ''http://localhost:8080/api/v1/runs/run-1'' (PatchBody example_run)]"
proof -
  let ?h = "\<lambda>n::nat. n \<noteq> 1"
  let ?s0 = "API_startRun ?h example_run fresh_api_sink"
  let ?s1 = "API_reportTest ?h (example_test ''a'' PASSED) ?s0"
  note E = fresh_api_sink_eval
  note T0 = batch_flush_policy[where s = fresh_api_sink and http = ?h and run = example_run
      and run' = example_run and ?t1.0 = "example_test ''a'' PASSED"
      and ?t2.0 = "example_test ''b'' FAILED" and ?t3.0 = "example_test ''c'' PASSED"]
  have start: "batch ?s0 = [] \<and> api_currentRun ?s0 = Some example_run"
    using T0[THEN conjunct2, THEN conjunct2, THEN conjunct2, THEN conjunct2, THEN conjunct2, THEN conjunct1] E by simp
  have cfg0: "api_config ?s0 = api_config fresh_api_sink"
    using API_startRun_spec[of fresh_api_sink ?h example_run] E by simp
  note T1 = batch_flush_policy[where s = ?s0 and cur = example_run and http = ?h
      and t = "example_test ''a'' PASSED"]
  have one: "batch ?s1 = [example_test ''a'' PASSED] \<and> api_currentRun ?s1 = Some example_run"
    using T1[THEN conjunct2, THEN conjunct2, THEN conjunct2, THEN conjunct1] start cfg0 E by simp
  have cfg1: "api_config ?s1 = api_config fresh_api_sink"
    using API_reportTest_spec[of ?s0 example_run ?h "example_test ''a'' PASSED"] start cfg0 E
    by simp
  note T2 = batch_flush_policy[where s = ?s1 and cur = example_run and http = ?h
      and t = "example_test ''b'' FAILED"]
  have two: "batch (API_reportTest ?h (example_test ''b'' FAILED) ?s1) = []"
    using T2[THEN conjunct2, THEN conjunct2, THEN conjunct2, THEN conjunct1] one cfg1 E by simp
  have scen: "requests (API_endRun ?h example_run
        (API_reportTest ?h (example_test ''c'' PASSED)
          (API_reportTest ?h (example_test ''b'' FAILED) ?s1)))
       = [POST ''http://localhost:8080/api/v1/runs'' (RunBody example_run),
          POST ''http://localhost:8080/api/v1/runs/run-1/results''
            (ResultsBody [example_test ''a'' PASSED, example_test ''b'' FAILED]),
          POST ''http://localhost:8080/api/v1/runs/run-1/results''
            (ResultsBody [example_test ''c'' PASSED]),
          PATCH ''http://localhost:8080/api/v1/runs/run-1'' (PatchBody example_run)]"
    using T0[THEN conjunct2, THEN conjunct2, THEN conjunct2, THEN conjunct2, THEN conjunct2, THEN conjunct2] E
    by (simp add: results_url_def example_run_def)
  from E(1,2) one two scen show ?thesis by simp
qed

text \<open>
  C3 as stated, for every sink with batch size \<open>B\<close>, fails on an enabled sink whose \<^verbatim>\<open>startRun\<close> was never called (the orchestrator skips it when an earlier sink's
  \<^verbatim>\<open>startRun\<close> throws, and still fans \<^verbatim>\<open>reportTest\<close> out afterwards): with \<open>B = 2\<close>, three
  \<^verbatim>\<open>reportTest\<close> calls leave all three tests in the buffer and send nothing.
\<close>

theorem batch_flush_policy_counterexample:
  "batchSize (cfg_api (api_config fresh_api_sink)) = 2
   \<and> api_enabled (cfg_api (api_config fresh_api_sink))
   \<and> batch (API_reportTest (\<lambda>n. True) (example_test ''c'' PASSED)
        (API_reportTest (\<lambda>n. True) (example_test ''b'' FAILED)
          (API_reportTest (\<lambda>n. True) (example_test ''a'' PASSED) fresh_api_sink)))
       = [example_test ''a'' PASSED, example_test ''b'' FAILED, example_test ''c'' PASSED]
   \<and> requests (API_reportTest (\<lambda>n. True) (example_test ''c'' PASSED)
        (API_reportTest (\<lambda>n. True) (example_test ''b'' FAILED)
          (API_reportTest (\<lambda>n. True) (example_test ''a'' PASSED) fresh_api_sink)))
       = []"
  by (simp add: api_defs)


section \<open>The JUnit XML sink\<close>

lemma JUnitReporter_endRun_off:
  "\<not> local_enabled (cfg_local cfg) \<or> ''junit'' \<notin> set (formats (cfg_local cfg)) \<Longrightarrow>
     JUnitReporter_endRun path_join writeFileSync cfg run = Inr None"
  by (auto simp add: JUnitReporter_endRun_def)

lemma JUnitReporter_endRun_written:
  assumes "local_enabled (cfg_local cfg)" and "''junit'' \<in> set (formats (cfg_local cfg))"
    and "writeFileSync (path_join (outputDir (cfg_local cfg)) ''junit.xml'') (generateXml run) = None"
  shows "JUnitReporter_endRun path_join writeFileSync cfg run
       = Inr (Some (path_join (outputDir (cfg_local cfg)) ''junit.xml'', generateXml run))"
  using assms by (simp add: JUnitReporter_endRun_def)

lemma JUnitReporter_endRun_throws:
  assumes "local_enabled (cfg_local cfg)" and "''junit'' \<in> set (formats (cfg_local cfg))"
    and "writeFileSync (path_join (outputDir (cfg_local cfg)) ''junit.xml'') (generateXml run) = Some err"
  shows "JUnitReporter_endRun path_join writeFileSync cfg run = Inl err"
  using assms by (simp add: JUnitReporter_endRun_def)

text \<open>
  \<^verbatim>\<open>escape\<close> replaces the four characters \<^verbatim>\<open>& < > "\<close> and keeps every other character, a
  character that XML forbids included.
\<close>

lemma replace_all_keeps: "c \<in> set str \<Longrightarrow> c \<noteq> d \<Longrightarrow> c \<in> set (replace_all d r str)"
  by (induction str) (auto simp add: replace_all_def)

lemma forbidden_not_markup:
  "\<not> xml_char c \<Longrightarrow> c \<noteq> CHR ''&'' \<and> c \<noteq> CHR ''<'' \<and> c \<noteq> CHR ''>'' \<and> c \<noteq> dq"
  by (auto simp add: xml_char_def dq_def)

lemma escape_keeps_forbidden:
  assumes "c \<in> set str" and "\<not> xml_char c"
  shows "c \<in> set (escape str)"
  using assms forbidden_not_markup[of c] unfolding escape_def
  by (intro replace_all_keeps) simp_all

lemma xml_chars_forbidden: "xml_chars xml \<longleftrightarrow> (\<forall>c \<in> set xml. xml_char c)"
  by (simp add: xml_chars_def list_all_iff)

lemma generateXml_projectName_forbidden:
  assumes "\<not> xml_chars (projectName run)"
  shows "\<not> xml_chars (generateXml run)"
proof -
  from assms obtain c where c: "c \<in> set (projectName run)" "\<not> xml_char c"
    by (auto simp add: xml_chars_forbidden)
  from escape_keeps_forbidden[OF c] have "c \<in> set (generateXml run)"
    by (simp add: generateXml_def attr_def)
  with c(2) show ?thesis by (auto simp add: xml_chars_forbidden)
qed

lemma generateXml_test_name_forbidden:
  assumes "t \<in> set (tests run)" and "\<not> xml_chars (test_name t)"
  shows "\<not> xml_chars (generateXml run)"
proof -
  from assms(2) obtain c where c: "c \<in> set (test_name t)" "\<not> xml_char c"
    by (auto simp add: xml_chars_forbidden)
  from escape_keeps_forbidden[OF c] have "c \<in> set (testcase_xml t)"
    by (simp add: testcase_xml_def attr_def)
  with assms(1) have "c \<in> set (generateXml run)"
    by (auto simp add: generateXml_def)
  with c(2) show ?thesis by (auto simp add: xml_chars_forbidden)
qed

lemma generateXml_errorMessage_forbidden:
  assumes "t \<in> set (tests run)" and "status t = FAILED \<or> status t = BROKEN"
    and "errorMessage t = Some msg" and "\<not> xml_chars msg"
  shows "\<not> xml_chars (generateXml run)"
proof -
  from assms(4) obtain c where c: "c \<in> set msg" "\<not> xml_char c"
    by (auto simp add: xml_chars_forbidden)
  then have ne: "msg \<noteq> []" by auto
  from escape_keeps_forbidden[OF c] assms(2,3) ne have "c \<in> set (testcase_xml t)"
    by (auto simp add: testcase_xml_def attr_def or_string_def)
  with assms(1) have "c \<in> set (generateXml run)"
    by (auto simp add: generateXml_def)
  with c(2) show ?thesis by (auto simp add: xml_chars_forbidden)
qed

text \<open>
  The run of the example is what the orchestrator seals and hands to its sinks, and with
  the example configuration the JUnit sink writes its XML to \<^verbatim>\<open>junit.xml\<close>, or throws what
  \<^verbatim>\<open>writeFileSync\<close> throws.
\<close>

lemma ansi_run_sealed:
  "snd (endRun later (reportTests [ansi_test]
          (fst (startRun ansi_options ''run-1'' epoch epoch (orchestrator [recording_sink])))))
     = Inr (Some ansi_run)"
  by (simp add: ex_defs ansi_run_def ansi_options_def ansi_test_def example_run_def
      for_each_reporter.simps js_mul_def js_div_def round_double_def)

lemma ansi_run_written:
  "JUnitReporter_endRun (\<lambda>dir file. dir @ ''/'' @ file) (\<lambda>file xml. None) example_config ansi_run
     = Inr (Some (''./qagentic-results/junit.xml'', generateXml ansi_run))"
  by (simp add: JUnitReporter_endRun_def example_config_def)

lemma toFixed3_examples: "toFixed3 1500 = ''1.500''" "toFixed3 12 = ''0.012''"
  by code_simp+

text \<open>
  C7 fails on this run. The sealed run of the example has one test, failed, whose message
  came from the test framework with two escape characters (\<^verbatim>\<open>#x1B\<close>) in it. The text that
  \<^verbatim>\<open>generateXml\<close> gives for it has the counters in the attributes of \<^verbatim>\<open>testsuite\<close>, and
  has both escape characters in the \<^verbatim>\<open>message\<close> attribute of \<^verbatim>\<open>failure\<close>, as \<^verbatim>\<open>escape\<close>
  left them. The escape character is not a character of XML, so the text is not a
  well-formed document: a parser reports a fatal error and gives no counters.
\<close>

theorem junit_xml_forbidden_character:
  "total ansi_run = 1 \<and> failed ansi_run = 1 \<and> broken ansi_run = 0 \<and> skipped ansi_run = 0
   \<and> errorMessage (hd (tests ansi_run))
       = Some ([esc] @ ''[31mexpected 3, received 4'' @ [esc] @ ''[39m'')
   \<and> generateXml ansi_run =
       ''<?xml version='' @ [dq] @ ''1.0'' @ [dq] @ '' encoding='' @ [dq] @ ''UTF-8'' @ [dq]
       @ ''?>'' @ [nl]
       @ ''<testsuite name='' @ [dq] @ ''P'' @ [dq] @ '' tests='' @ [dq] @ ''1'' @ [dq]
       @ '' failures='' @ [dq] @ ''1'' @ [dq] @ '' errors='' @ [dq] @ ''0'' @ [dq]
       @ '' skipped='' @ [dq] @ ''0'' @ [dq] @ '' time='' @ [dq] @ ''1.500'' @ [dq]
       @ '' timestamp='' @ [dq] @ ''1970-01-01T00:00:00.000Z'' @ [dq] @ ''>'' @ [nl]
       @ ''  <testcase name='' @ [dq] @ ''adds'' @ [dq]
       @ '' classname='' @ [dq] @ ''suite &gt; adds'' @ [dq]
       @ '' time='' @ [dq] @ ''0.012'' @ [dq] @ ''>'' @ [nl]
       @ ''    <failure message='' @ [dq]
       @ [esc] @ ''[31mexpected 3, received 4'' @ [esc] @ ''[39m'' @ [dq]
       @ '' type='' @ [dq] @ ''AssertionError'' @ [dq] @ ''></failure>'' @ [nl]
       @ ''  </testcase>'' @ [nl]
       @ ''</testsuite>'' @ [nl]
   \<and> esc = CHR 0x1B \<and> \<not> xml_char esc
   \<and> \<not> xml_chars (generateXml ansi_run)"
proof -
  have x: "generateXml ansi_run =
       ''<?xml version='' @ [dq] @ ''1.0'' @ [dq] @ '' encoding='' @ [dq] @ ''UTF-8'' @ [dq]
       @ ''?>'' @ [nl]
       @ ''<testsuite name='' @ [dq] @ ''P'' @ [dq] @ '' tests='' @ [dq] @ ''1'' @ [dq]
       @ '' failures='' @ [dq] @ ''1'' @ [dq] @ '' errors='' @ [dq] @ ''0'' @ [dq]
       @ '' skipped='' @ [dq] @ ''0'' @ [dq] @ '' time='' @ [dq] @ ''1.500'' @ [dq]
       @ '' timestamp='' @ [dq] @ ''1970-01-01T00:00:00.000Z'' @ [dq] @ ''>'' @ [nl]
       @ ''  <testcase name='' @ [dq] @ ''adds'' @ [dq]
       @ '' classname='' @ [dq] @ ''suite &gt; adds'' @ [dq]
       @ '' time='' @ [dq] @ ''0.012'' @ [dq] @ ''>'' @ [nl]
       @ ''    <failure message='' @ [dq]
       @ [esc] @ ''[31mexpected 3, received 4'' @ [esc] @ ''[39m'' @ [dq]
       @ '' type='' @ [dq] @ ''AssertionError'' @ [dq] @ ''></failure>'' @ [nl]
       @ ''  </testcase>'' @ [nl]
       @ ''</testsuite>'' @ [nl]"
    by (simp add: generateXml_def ansi_run_def ansi_test_def example_run_def example_test_def
        testcase_xml_def attr_def escape_def replace_all_def or_string_def epoch_def
        toFixed3_examples show_nat.simps digit_char_def esc_def dq_def nl_def)
  have c: "total ansi_run = 1 \<and> failed ansi_run = 1 \<and> broken ansi_run = 0 \<and> skipped ansi_run = 0
     \<and> errorMessage (hd (tests ansi_run))
       = Some ([esc] @ ''[31mexpected 3, received 4'' @ [esc] @ ''[39m'')"
    by (simp add: ansi_run_def ansi_test_def example_run_def)
  have e: "esc = CHR 0x1B \<and> \<not> xml_char esc"
    by (simp add: esc_def xml_char_def)
  have "esc \<in> set (generateXml ansi_run)"
    by (subst x) simp
  with e have n: "\<not> xml_chars (generateXml ansi_run)"
    by (auto simp add: xml_chars_def list_all_iff)
  from x c e n show ?thesis by blast
qed

end
